theory Spec2Isabelle
  imports Complex_Main
begin

section \<open>The useEyeTracking hook as an event-driven state machine\<close>

text \<open>
  The repository holds two revisions of the hook \<^verbatim>\<open>useEyeTracking\<close>:
  \<^verbatim>\<open>src/hooks/useEyeTracking.ts\<close> (gaze only, disabling pauses the estimator) and
  \<^verbatim>\<open>src/unnamed/part_002\<close> (gaze and mouse, disabling ends the estimator).
  Both are embedded in one model; the field \<open>variant\<close> of the configuration selects the
  revision at each place where the two texts differ.

  The browser is the environment. Its event loop is single threaded, so every handler of
  the hook runs to completion and is one transition of the model:
  \<^item> the clock counts milliseconds; the event \<open>Tick\<close> advances it by one and then runs,
    in creation order, every pending timer that is due;
  \<^item> \<^verbatim>\<open>setState\<close> of React is an assignment, and React re-renders between two events,
    so the effect that copies \<^verbatim>\<open>gazePosition\<close> into \<^verbatim>\<open>latestGazePositionRef\<close> has run
    before the next event (\<open>commit\<close>);
  \<^item> \<^verbatim>\<open>Date.now()\<close> is the clock of the timers and never runs backwards;
  \<^item> the property \<^verbatim>\<open>dwellTime\<close> is constant (the application passes 2000) and the
    component stays mounted, so the effect re-runs only when \<^verbatim>\<open>enabled\<close> changes;
  \<^item> numbers are reals, times are natural numbers of milliseconds, and the ids of timers
    are positive, so that \<^verbatim>\<open>if (ref.current)\<close> tests a timer reference for null only;
  \<^item> the estimator (WebGazer) is outside the model: its script may load or fail, its
    \<^verbatim>\<open>begin()\<close> may resolve or reject, and it may call the registered listener at any
    time; the calls the hook makes on it are logged in \<open>wgCalls\<close>;
  \<^item> the styling of the estimator's video preview and the console output are left out.
\<close>

subsection \<open>The document\<close>

datatype element =
  Element (eid: nat) (dataSymbolId: "string option") (isHTMLElement: bool)
          (parentElement: "element option")

text \<open>\<^verbatim>\<open>el.hasAttribute('data-symbol-id')\<close>\<close>

definition hasAttribute :: "element \<Rightarrow> bool" where
  "hasAttribute el = (dataSymbolId el \<noteq> None)"

text \<open>\<^verbatim>\<open>el.closest('[data-symbol-id]')\<close>: the element itself or its nearest tagged ancestor.\<close>

fun closest :: "element \<Rightarrow> element option" where
  "closest (Element i a h p) =
     (if a \<noteq> None then Some (Element i a h p)
      else (case p of None \<Rightarrow> None | Some q \<Rightarrow> closest q))"

text \<open>
  What the hook asks of the document: the hit test \<^verbatim>\<open>document.elementsFromPoint\<close>
  (topmost element first) and whether \<^verbatim>\<open>click()\<close> on an element throws (as it does on
  an element that is no HTMLElement and so has no such method). \<^verbatim>\<open>dispatchEvent\<close> of a
  freshly constructed event does not throw: the exceptions of listeners are reported by
  the browser, not passed to the caller.
\<close>

record dom =
  elementsFromPoint :: "real \<Rightarrow> real \<Rightarrow> element list"
  clickThrows :: "element \<Rightarrow> bool"

subsection \<open>Target resolution (the first half of gazeListener)\<close>

definition tolerance :: real where
  "tolerance = 50"

definition pointsToCheck :: "real \<Rightarrow> real \<Rightarrow> (real \<times> real) list" where
  "pointsToCheck currentX currentY =
     [(currentX, currentY - tolerance),
      (currentX, currentY + tolerance),
      (currentX - tolerance, currentY),
      (currentX + tolerance, currentY)]"

text \<open>The loop over \<^verbatim>\<open>pointsToCheck\<close>, left at the first point with a tagged element.\<close>

fun nearbyButton :: "dom \<Rightarrow> (real \<times> real) list \<Rightarrow> element option" where
  "nearbyButton d [] = None"
| "nearbyButton d (point # points) =
     (case find hasAttribute (elementsFromPoint d (fst point) (snd point)) of
        Some el \<Rightarrow> Some el
      | None \<Rightarrow> nearbyButton d points)"

text \<open>The array \<^verbatim>\<open>elements\<close> after the tolerance check (a found button is pushed at its end).\<close>

definition toleranceCheck :: "dom \<Rightarrow> real \<Rightarrow> real \<Rightarrow> element list" where
  "toleranceCheck d currentX currentY =
     (let elements = elementsFromPoint d currentX currentY in
      if \<not> list_ex hasAttribute elements then
        (case nearbyButton d (pointsToCheck currentX currentY) of
           Some el \<Rightarrow> elements @ [el]
         | None \<Rightarrow> elements)
      else elements)"

text \<open>The second loop: the first HTML element of the list that has a tagged ancestor.\<close>

fun closestLoop :: "element list \<Rightarrow> element option" where
  "closestLoop [] = None"
| "closestLoop (el # els) =
     (if isHTMLElement el then
        (case closest el of Some c \<Rightarrow> Some c | None \<Rightarrow> closestLoop els)
      else closestLoop els)"

text \<open>The value of \<^verbatim>\<open>buttonElement\<close> after both loops.\<close>

definition findButton :: "dom \<Rightarrow> real \<Rightarrow> real \<Rightarrow> element option" where
  "findButton d currentX currentY =
     (let elements = toleranceCheck d currentX currentY in
      case find hasAttribute elements of
        Some el \<Rightarrow> Some el
      | None \<Rightarrow> closestLoop elements)"

text \<open>
  The resolver as section 4.1 of the specification words it: a tagged element under the
  point, else a tagged ancestor of an element under the point, else the four probes.
\<close>

definition resolve_spec :: "dom \<Rightarrow> real \<Rightarrow> real \<Rightarrow> element option" where
  "resolve_spec d x y =
     (case find hasAttribute (elementsFromPoint d x y) of
        Some el \<Rightarrow> Some el
      | None \<Rightarrow>
          (case closestLoop (elementsFromPoint d x y) of
             Some el \<Rightarrow> Some el
           | None \<Rightarrow> nearbyButton d (pointsToCheck x y)))"

subsection \<open>Timers, configuration and state\<close>

datatype callback =
    DwellComplete element string
  | ProgressTick
  | MouseInactive
  | InitDone

record timer =
  tid :: nat
  due :: nat
  cb :: callback

datatype variant = Hooks | Part002

record config =
  variant :: variant
  dwellTime :: nat

datatype wgcall = Begin | Pause | Resume | End

datatype domcall = ClickOk element | ClickThrew element | DispatchClick element

datatype cleanup = NoCleanup | RemoveListener | Teardown

datatype cursor = CursorDefault | CursorNone

record state =
  gazePosition :: "(real \<times> real) option"
  hoveredElement :: "string option"
  dwellProgress :: real
  isInitialized :: bool
  isUsingMouse :: bool
  dwellTimerRef :: "nat option"
  progressIntervalRef :: "nat option"
  dwellStartTimeRef :: nat
  currentHoveredRef :: "string option"
  mouseInactivityTimerRef :: "nat option"
  isUsingMouseRef :: bool
  latestGazePositionRef :: "(real \<times> real) option"
  webgazerInitialized :: bool
  enabled :: bool
  pendingCleanup :: cleanup
  mouseListener :: bool
  bodyCursor :: cursor
  windowWebgazer :: bool
  gazeListenerSet :: bool
  pendingScripts :: nat
  pendingBegins :: nat
  scriptAppends :: nat
  wgCalls :: "wgcall list"
  document :: dom
  calls :: "domcall list"
  now :: nat
  timers :: "timer list"
  nextTimer :: nat

text \<open>\<^verbatim>\<open>setTimeout\<close> and \<^verbatim>\<open>setInterval\<close>: the new timer gets the id \<open>nextTimer\<close>.\<close>

definition setTimer :: "nat \<Rightarrow> callback \<Rightarrow> state \<Rightarrow> state" where
  "setTimer delay c s =
     s\<lparr>timers := timers s @ [\<lparr>tid = nextTimer s, due = now s + delay, cb = c\<rparr>],
       nextTimer := nextTimer s + 1\<rparr>"

text \<open>\<^verbatim>\<open>clearTimeout(id)\<close> and \<^verbatim>\<open>clearInterval(id)\<close>.\<close>

definition clearTimer :: "nat \<Rightarrow> state \<Rightarrow> state" where
  "clearTimer i s = s\<lparr>timers := filter (\<lambda>t. tid t \<noteq> i) (timers s)\<rparr>"

text \<open>\<^verbatim>\<open>if (ref.current) clearTimeout(ref.current)\<close>, the reference kept.\<close>

definition clearRef :: "nat option \<Rightarrow> state \<Rightarrow> state" where
  "clearRef r s = (case r of None \<Rightarrow> s | Some i \<Rightarrow> clearTimer i s)"

subsection \<open>The callbacks of the timers\<close>

text \<open>
  The interval started with a dwell: every 50 ms. For a dwell time of 0 the quotient of
  JavaScript is NaN or Infinity where the division of HOL gives 0; the theorem on the
  progress takes a positive dwell time.
\<close>

definition progressIntervalCallback :: "config \<Rightarrow> state \<Rightarrow> state" where
  "progressIntervalCallback cfg s =
     (let elapsed = real (now s) - real (dwellStartTimeRef s);
          progress = min ((elapsed / real (dwellTime cfg)) * 100) 100
      in s\<lparr>dwellProgress := progress\<rparr>)"

text \<open>The timeout started with a dwell: the click, its fallback, and the reset.\<close>

definition activate :: "element \<Rightarrow> state \<Rightarrow> state" where
  "activate buttonElement s =
     (if clickThrows (document s) buttonElement
      then s\<lparr>calls := calls s @ [ClickThrew buttonElement, DispatchClick buttonElement]\<rparr>
      else s\<lparr>calls := calls s @ [ClickOk buttonElement]\<rparr>)"

definition dwellTimerCallback :: "element \<Rightarrow> string \<Rightarrow> state \<Rightarrow> state" where
  "dwellTimerCallback buttonElement elementId s =
     (let s1 = activate buttonElement s;
          s2 = s1\<lparr>currentHoveredRef := None, hoveredElement := None, dwellProgress := 0\<rparr>
      in (case progressIntervalRef s2 of
            Some i \<Rightarrow> (clearTimer i s2)\<lparr>progressIntervalRef := None\<rparr>
          | None \<Rightarrow> s2))"

definition mouseInactivityCallback :: "state \<Rightarrow> state" where
  "mouseInactivityCallback s = s\<lparr>isUsingMouse := False, isUsingMouseRef := False\<rparr>"

definition initTimeoutCallback :: "state \<Rightarrow> state" where
  "initTimeoutCallback s = s\<lparr>isInitialized := True\<rparr>"

text \<open>
  Running one due timer: a timeout leaves the list, the interval is due again 50 ms later.
\<close>

definition rearm :: "timer \<Rightarrow> state \<Rightarrow> state" where
  "rearm t s =
     s\<lparr>timers := map (\<lambda>u. if tid u = tid t then u\<lparr>due := due u + 50\<rparr> else u) (timers s)\<rparr>"

definition fire :: "config \<Rightarrow> timer \<Rightarrow> state \<Rightarrow> state" where
  "fire cfg t s =
     (case cb t of
        DwellComplete buttonElement elementId \<Rightarrow>
          dwellTimerCallback buttonElement elementId (clearTimer (tid t) s)
      | ProgressTick \<Rightarrow> progressIntervalCallback cfg (rearm t s)
      | MouseInactive \<Rightarrow> mouseInactivityCallback (clearTimer (tid t) s)
      | InitDone \<Rightarrow> initTimeoutCallback (clearTimer (tid t) s))"

text \<open>
  The timers that were pending when the clock moved run in order; one that an earlier
  callback has cleared meanwhile is skipped.
\<close>

fun runDue :: "config \<Rightarrow> timer list \<Rightarrow> state \<Rightarrow> state" where
  "runDue cfg [] s = s"
| "runDue cfg (t # ts) s =
     runDue cfg ts (if t \<in> set (timers s) \<and> due t \<le> now s then fire cfg t s else s)"

definition tick :: "config \<Rightarrow> state \<Rightarrow> state" where
  "tick cfg s = (let s1 = s\<lparr>now := now s + 1\<rparr> in runDue cfg (timers s1) s1)"

subsection \<open>gazeListener: the dwell transition\<close>

definition startDwell :: "config \<Rightarrow> element \<Rightarrow> string \<Rightarrow> state \<Rightarrow> state" where
  "startDwell cfg buttonElement elementId s =
     (let s1 = s\<lparr>currentHoveredRef := Some elementId, hoveredElement := Some elementId,
                 dwellStartTimeRef := now s, dwellProgress := 0\<rparr>;
          s2 = (case dwellTimerRef s1 of
                  Some i \<Rightarrow> (clearTimer i s1)\<lparr>dwellTimerRef := None\<rparr>
                | None \<Rightarrow> s1);
          s3 = (case progressIntervalRef s2 of
                  Some i \<Rightarrow> (clearTimer i s2)\<lparr>progressIntervalRef := None\<rparr>
                | None \<Rightarrow> s2);
          s4 = (setTimer 50 ProgressTick s3)\<lparr>progressIntervalRef := Some (nextTimer s3)\<rparr>;
          s5 = (setTimer (dwellTime cfg) (DwellComplete buttonElement elementId) s4)
                 \<lparr>dwellTimerRef := Some (nextTimer s4)\<rparr>
      in s5)"

definition stopDwell :: "state \<Rightarrow> state" where
  "stopDwell s =
     (let s1 = s\<lparr>currentHoveredRef := None, hoveredElement := None, dwellProgress := 0\<rparr>;
          s2 = (case dwellTimerRef s1 of
                  Some i \<Rightarrow> (clearTimer i s1)\<lparr>dwellTimerRef := None\<rparr>
                | None \<Rightarrow> s1);
          s3 = (case progressIntervalRef s2 of
                  Some i \<Rightarrow> (clearTimer i s2)\<lparr>progressIntervalRef := None\<rparr>
                | None \<Rightarrow> s2)
      in s3)"

text \<open>The branch on \<^verbatim>\<open>buttonElement\<close> at the end of gazeListener.\<close>

definition dwellTransition :: "config \<Rightarrow> element option \<Rightarrow> state \<Rightarrow> state" where
  "dwellTransition cfg buttonElement s =
     (case buttonElement of
        Some el \<Rightarrow>
          (case dataSymbolId el of
             Some elementId \<Rightarrow>
               (if elementId \<noteq> [] \<and> Some elementId \<noteq> currentHoveredRef s
                then startDwell cfg el elementId s
                else s)
           | None \<Rightarrow> s)
      | None \<Rightarrow> (if currentHoveredRef s \<noteq> None then stopDwell s else s))"

text \<open>
  The point the resolution runs at: the sample, or in part_002 the last reported position
  while the mouse is in use.
\<close>

definition currentPoint :: "config \<Rightarrow> state \<Rightarrow> real \<times> real \<Rightarrow> real \<times> real" where
  "currentPoint cfg s xy =
     (if variant cfg = Part002 \<and> isUsingMouseRef s then
        (case latestGazePositionRef s of Some p \<Rightarrow> p | None \<Rightarrow> xy)
      else xy)"

definition gazeListener :: "config \<Rightarrow> (real \<times> real) option \<Rightarrow> state \<Rightarrow> state" where
  "gazeListener cfg data s =
     (case data of
        None \<Rightarrow> s
      | Some xy \<Rightarrow>
          (let s1 = (if variant cfg = Part002 \<and> isUsingMouseRef s then s
                     else s\<lparr>gazePosition := Some xy\<rparr>);
               current = currentPoint cfg s xy;
               buttonElement = findButton (document s) (fst current) (snd current)
           in dwellTransition cfg buttonElement s1))"

subsection \<open>handleMouseMove (part_002)\<close>

definition handleMouseMove :: "real \<times> real \<Rightarrow> state \<Rightarrow> state" where
  "handleMouseMove e s =
     (let s1 = s\<lparr>isUsingMouse := True, isUsingMouseRef := True, gazePosition := Some e\<rparr>;
          s2 = clearRef (mouseInactivityTimerRef s1) s1
      in (setTimer 5000 MouseInactive s2)\<lparr>mouseInactivityTimerRef := Some (nextTimer s2)\<rparr>)"

subsection \<open>The effect on enabled, its cleanup, and the asynchronous start\<close>

text \<open>The function the previous run of the effect returned.\<close>

definition runCleanup :: "config \<Rightarrow> state \<Rightarrow> state" where
  "runCleanup cfg s =
     (case pendingCleanup s of
        NoCleanup \<Rightarrow> s
      | RemoveListener \<Rightarrow> s\<lparr>mouseListener := False\<rparr>
      | Teardown \<Rightarrow>
          (case variant cfg of
             Hooks \<Rightarrow>
               (let s1 = (if windowWebgazer s then s\<lparr>wgCalls := wgCalls s @ [Pause]\<rparr> else s);
                    s2 = clearRef (progressIntervalRef s1) s1;
                    s3 = clearRef (dwellTimerRef s2) s2
                in s3)
           | Part002 \<Rightarrow>
               (let s1 = (if windowWebgazer s then s\<lparr>wgCalls := wgCalls s @ [End]\<rparr> else s);
                    s2 = clearRef (progressIntervalRef s1) s1;
                    s3 = clearRef (dwellTimerRef s2) s2;
                    s4 = clearRef (mouseInactivityTimerRef s3) s3
                in s4\<lparr>mouseListener := False, bodyCursor := CursorDefault\<rparr>)))"

text \<open>The body of the effect when \<^verbatim>\<open>enabled\<close> is false.\<close>

definition effectDisabled :: "config \<Rightarrow> state \<Rightarrow> state" where
  "effectDisabled cfg s =
     (case variant cfg of
        Hooks \<Rightarrow>
          (let s1 = (if windowWebgazer s \<and> webgazerInitialized s
                     then s\<lparr>wgCalls := wgCalls s @ [Pause]\<rparr> else s);
               s2 = s1\<lparr>gazePosition := None, hoveredElement := None, dwellProgress := 0,
                       currentHoveredRef := None, isInitialized := False\<rparr>;
               s3 = clearRef (dwellTimerRef s2) s2;
               s4 = clearRef (progressIntervalRef s3) s3
           in s4\<lparr>pendingCleanup := NoCleanup\<rparr>)
      | Part002 \<Rightarrow>
          (let s1 = (if windowWebgazer s \<and> webgazerInitialized s
                     then s\<lparr>wgCalls := wgCalls s @ [End], webgazerInitialized := False\<rparr>
                     else s);
               s2 = s1\<lparr>gazePosition := None, hoveredElement := None, dwellProgress := 0,
                       currentHoveredRef := None, isInitialized := False,
                       isUsingMouse := False, isUsingMouseRef := False\<rparr>;
               s3 = clearRef (dwellTimerRef s2) s2;
               s4 = clearRef (progressIntervalRef s3) s3;
               s5 = clearRef (mouseInactivityTimerRef s4) s4
           in s5\<lparr>bodyCursor := CursorDefault, pendingCleanup := NoCleanup\<rparr>))"

text \<open>
  The body of the effect when \<^verbatim>\<open>enabled\<close> is true: resume, or append the script of the
  estimator (\<open>scriptAppends\<close> counts the appends, \<open>pendingScripts\<close> the loads under way).
\<close>

definition effectEnabled :: "config \<Rightarrow> state \<Rightarrow> state" where
  "effectEnabled cfg s =
     (case variant cfg of
        Hooks \<Rightarrow>
          (if webgazerInitialized s \<and> windowWebgazer s then
             s\<lparr>wgCalls := wgCalls s @ [Resume], isInitialized := True,
               pendingCleanup := NoCleanup\<rparr>
           else if webgazerInitialized s then s\<lparr>pendingCleanup := NoCleanup\<rparr>
           else s\<lparr>pendingScripts := pendingScripts s + 1,
                  scriptAppends := scriptAppends s + 1,
                  pendingCleanup := Teardown\<rparr>)
      | Part002 \<Rightarrow>
          (let s1 = s\<lparr>bodyCursor := CursorNone, mouseListener := True\<rparr> in
           if webgazerInitialized s1 \<and> windowWebgazer s1 then
             s1\<lparr>wgCalls := wgCalls s1 @ [Resume], isInitialized := True,
                pendingCleanup := RemoveListener\<rparr>
           else if webgazerInitialized s1 then s1\<lparr>pendingCleanup := RemoveListener\<rparr>
           else s1\<lparr>pendingScripts := pendingScripts s1 + 1,
                   scriptAppends := scriptAppends s1 + 1,
                   pendingCleanup := Teardown\<rparr>))"

text \<open>React: a changed \<^verbatim>\<open>enabled\<close> runs the old cleanup, then the effect.\<close>

definition setEnabled :: "config \<Rightarrow> bool \<Rightarrow> state \<Rightarrow> state" where
  "setEnabled cfg b s =
     (if b = enabled s then s
      else (let s1 = (runCleanup cfg s)\<lparr>enabled := b\<rparr> in
            if b then effectEnabled cfg s1 else effectDisabled cfg s1))"

text \<open>\<^verbatim>\<open>script.onload\<close>: the listener is registered and \<^verbatim>\<open>begin()\<close> is called.\<close>

definition scriptOnload :: "state \<Rightarrow> state" where
  "scriptOnload s =
     s\<lparr>windowWebgazer := True, gazeListenerSet := True,
       wgCalls := wgCalls s @ [Begin], pendingBegins := pendingBegins s + 1\<rparr>"

text \<open>The \<^verbatim>\<open>then\<close> of \<^verbatim>\<open>begin()\<close>: the flag of the module, and the timeout of one second.\<close>

definition beginThen :: "state \<Rightarrow> state" where
  "beginThen s = setTimer 1000 InitDone (s\<lparr>webgazerInitialized := True\<rparr>)"

subsection \<open>Events and runs\<close>

datatype event =
    SetEnabled bool
  | MouseMove "real \<times> real"
  | Gaze "(real \<times> real) option"
  | ScriptLoaded
  | ScriptError
  | BeginResolved
  | BeginRejected
  | DomUpdate dom
  | Tick

text \<open>The effect on \<^verbatim>\<open>gazePosition\<close> that keeps \<^verbatim>\<open>latestGazePositionRef\<close> (part_002).\<close>

definition commit :: "config \<Rightarrow> state \<Rightarrow> state" where
  "commit cfg s =
     (if variant cfg = Part002 then s\<lparr>latestGazePositionRef := gazePosition s\<rparr> else s)"

fun handle :: "config \<Rightarrow> event \<Rightarrow> state \<Rightarrow> state" where
  "handle cfg (SetEnabled b) s = setEnabled cfg b s"
| "handle cfg (MouseMove e) s = (if mouseListener s then handleMouseMove e s else s)"
| "handle cfg (Gaze data) s = (if gazeListenerSet s then gazeListener cfg data s else s)"
| "handle cfg ScriptLoaded s =
     (if 0 < pendingScripts s
      then scriptOnload (s\<lparr>pendingScripts := pendingScripts s - 1\<rparr>) else s)"
| "handle cfg ScriptError s =
     (if 0 < pendingScripts s then s\<lparr>pendingScripts := pendingScripts s - 1\<rparr> else s)"
| "handle cfg BeginResolved s =
     (if 0 < pendingBegins s
      then beginThen (s\<lparr>pendingBegins := pendingBegins s - 1\<rparr>) else s)"
| "handle cfg BeginRejected s =
     (if 0 < pendingBegins s then s\<lparr>pendingBegins := pendingBegins s - 1\<rparr> else s)"
| "handle cfg (DomUpdate d) s = s\<lparr>document := d\<rparr>"
| "handle cfg Tick s = tick cfg s"

definition step :: "config \<Rightarrow> event \<Rightarrow> state \<Rightarrow> state" where
  "step cfg e s = commit cfg (handle cfg e s)"

fun run :: "config \<Rightarrow> event list \<Rightarrow> state \<Rightarrow> state" where
  "run cfg [] s = s"
| "run cfg (e # es) s = run cfg es (step cfg e s)"

text \<open>The page before the hook is mounted, and the first run of the effect.\<close>

definition initialState :: "dom \<Rightarrow> state" where
  "initialState d =
     \<lparr>gazePosition = None, hoveredElement = None, dwellProgress = 0,
      isInitialized = False, isUsingMouse = False,
      dwellTimerRef = None, progressIntervalRef = None, dwellStartTimeRef = 0,
      currentHoveredRef = None, mouseInactivityTimerRef = None,
      isUsingMouseRef = False, latestGazePositionRef = None,
      webgazerInitialized = False, enabled = False, pendingCleanup = NoCleanup,
      mouseListener = False, bodyCursor = CursorDefault,
      windowWebgazer = False, gazeListenerSet = False,
      pendingScripts = 0, pendingBegins = 0, scriptAppends = 0, wgCalls = [],
      document = d, calls = [], now = 0, timers = [], nextTimer = 1\<rparr>"

definition mount :: "config \<Rightarrow> dom \<Rightarrow> bool \<Rightarrow> state" where
  "mount cfg d b =
     commit cfg
       (let s = (initialState d)\<lparr>enabled := b\<rparr> in
        if b then effectEnabled cfg s else effectDisabled cfg s)"


subsection \<open>Invariants of the reachable states\<close>

text \<open>
  Timer ids are handed out in increasing order, and each of the three references holds
  the id of the only pending timer of its kind, if there is one.
\<close>

fun isDwell :: "callback \<Rightarrow> bool" where
  "isDwell (DwellComplete b i) = True"
| "isDwell c = False"

definition tracked :: "(callback \<Rightarrow> bool) \<Rightarrow> nat option \<Rightarrow> timer list \<Rightarrow> nat \<Rightarrow> bool" where
  "tracked K r ts n =
     ((\<forall>t \<in> set ts. K (cb t) \<longleftrightarrow> r = Some (tid t)) \<and> (\<forall>i. r = Some i \<longrightarrow> i < n))"

definition fresh :: "timer list \<Rightarrow> nat \<Rightarrow> bool" where
  "fresh ts n = (distinct (map tid ts) \<and> (\<forall>t \<in> set ts. tid t < n))"

definition inv_timers :: "state \<Rightarrow> bool" where
  "inv_timers s =
     (fresh (timers s) (nextTimer s)
      \<and> tracked isDwell (dwellTimerRef s) (timers s) (nextTimer s)
      \<and> tracked (\<lambda>c. c = ProgressTick) (progressIntervalRef s) (timers s) (nextTimer s)
      \<and> tracked (\<lambda>c. c = MouseInactive) (mouseInactivityTimerRef s) (timers s) (nextTimer s))"

subsection \<open>Concrete documents and configurations\<close>

definition ex_apple :: element where
  "ex_apple = Element 1 (Some ''apple'') True None"

definition ex_banana :: element where
  "ex_banana = Element 2 (Some ''banana'') True None"

definition ex_label :: element where
  "ex_label = Element 3 None True (Some ex_apple)"

text \<open>An untagged label of the apple button at (100, 100), the banana button 50 above.\<close>

definition dom_probe_first :: dom where
  "dom_probe_first =
     \<lparr>elementsFromPoint = (\<lambda>x y. if x = 100 \<and> y = 100 then [ex_label]
                                  else if x = 100 \<and> y = 50 then [ex_banana] else []),
      clickThrows = (\<lambda>el. False)\<rparr>"

definition dom_ancestor_only :: dom where
  "dom_ancestor_only =
     \<lparr>elementsFromPoint = (\<lambda>x y. if x = 100 \<and> y = 100 then [ex_label] else []),
      clickThrows = (\<lambda>el. False)\<rparr>"

subsection \<open>Predicates on states and runs, and further examples\<close>

definition noDwell :: "state \<Rightarrow> bool" where
  "noDwell s = (\<forall>t \<in> set (timers s). \<not> isDwell (cb t) \<and> cb t \<noteq> ProgressTick)"

fun isGazeSample :: "event \<Rightarrow> bool" where
  "isGazeSample (Gaze (Some p)) = True"
| "isGazeSample e = False"

definition ex_cfg :: config where
  "ex_cfg = \<lparr>variant = Part002, dwellTime = 100\<rparr>"

definition ex_dom :: dom where
  "ex_dom = \<lparr>elementsFromPoint = (\<lambda>x y. if x = 10 \<and> y = 10 then [ex_apple] else []),
             clickThrows = (\<lambda>el. False)\<rparr>"

definition ex_started :: "event list" where
  "ex_started = [SetEnabled True, ScriptLoaded, BeginResolved]"

definition ex_mid_dwell :: state where
  "ex_mid_dwell =
     run ex_cfg (ex_started @ [Gaze (Some (10, 10))] @ replicate 60 Tick)
       (mount ex_cfg ex_dom False)"

text \<open>What the hook returns to the interface, with the flag of the effect and the clicks.\<close>

definition snapshot ::
  "state \<Rightarrow> bool \<times> (real \<times> real) option \<times> string option \<times> real \<times> bool \<times> bool \<times> domcall list" where
  "snapshot s =
     (enabled s, gazePosition s, hoveredElement s, dwellProgress s, isInitialized s,
      isUsingMouse s, calls s)"

definition armed :: "timer list \<Rightarrow> bool" where
  "armed ts = (\<exists>t \<in> set ts. cb t = MouseInactive)"

definition inv_mouse :: "config \<Rightarrow> state \<Rightarrow> bool" where
  "inv_mouse cfg s =
     (isUsingMouse s = isUsingMouseRef s
      \<and> armed (timers s) = isUsingMouseRef s
      \<and> (variant cfg = Hooks \<longrightarrow> \<not> mouseListener s \<and> \<not> isUsingMouseRef s)
      \<and> (\<not> enabled s \<longrightarrow> pendingCleanup s = NoCleanup))"

definition idle :: "state \<Rightarrow> bool" where
  "idle s = (noDwell s \<and> currentHoveredRef s = None \<and> hoveredElement s = None \<and> calls s = [])"

text \<open>The fields that no timer callback writes.\<close>

definition timerFrame ::
  "state \<Rightarrow> (bool \<times> bool \<times> nat \<times> nat \<times> nat \<times> wgcall list)
     \<times> (bool \<times> cleanup \<times> bool \<times> bool \<times> cursor) \<times> (dom \<times> nat)
     \<times> ((real \<times> real) option \<times> (real \<times> real) option \<times> nat option \<times> nat option \<times> nat)" where
  "timerFrame s =
     ((webgazerInitialized s, windowWebgazer s, pendingScripts s, pendingBegins s,
       scriptAppends s, wgCalls s),
      (enabled s, pendingCleanup s, mouseListener s, gazeListenerSet s, bodyCursor s),
      (document s, nextTimer s),
      (gazePosition s, latestGazePositionRef s, dwellTimerRef s, mouseInactivityTimerRef s,
       dwellStartTimeRef s))"

definition ex_hooks :: config where
  "ex_hooks = \<lparr>variant = Hooks, dwellTime = 3\<rparr>"

definition ex_hooks_running :: state where
  "ex_hooks_running = run ex_hooks ex_started (mount ex_hooks ex_dom False)"

definition ex_late :: "event list" where
  "ex_late = [SetEnabled True, SetEnabled False, ScriptLoaded]"

fun isMouseMove :: "event \<Rightarrow> bool" where
  "isMouseMove (MouseMove p) = True"
| "isMouseMove e = False"

fun isPointerOrToggle :: "event \<Rightarrow> bool" where
  "isPointerOrToggle (MouseMove p) = True"
| "isPointerOrToggle (SetEnabled b) = True"
| "isPointerOrToggle e = False"

text \<open>The mouse is in use since a movement at \<open>p\<close> whose inactivity timer is \<open>tm\<close>.\<close>

definition pointing :: "config \<Rightarrow> real \<times> real \<Rightarrow> timer \<Rightarrow> state \<Rightarrow> bool" where
  "pointing cfg p tm s =
     (inv_timers s \<and> variant cfg = Part002 \<and> isUsingMouse s \<and> isUsingMouseRef s
      \<and> gazePosition s = Some p \<and> latestGazePositionRef s = Some p
      \<and> tm \<in> set (timers s) \<and> cb tm = MouseInactive)"

definition ex_enabled :: state where
  "ex_enabled = run ex_cfg ex_started (mount ex_cfg ex_dom False)"

text \<open>The id of the target a gaze sample resolves to in a state.\<close>

definition resolvedId :: "config \<Rightarrow> state \<Rightarrow> real \<times> real \<Rightarrow> string option" where
  "resolvedId cfg s xy =
     (case findButton (document s) (fst (currentPoint cfg s xy)) (snd (currentPoint cfg s xy)) of
        Some el \<Rightarrow> dataSymbolId el
      | None \<Rightarrow> None)"

text \<open>
  A stream that stays on the target \<open>T\<close>: every gaze sample resolves to \<open>T\<close> in the state
  it arrives in, and \<^verbatim>\<open>enabled\<close> does not change. Everything else may happen.
\<close>

fun steadyEvent :: "config \<Rightarrow> string \<Rightarrow> event \<Rightarrow> state \<Rightarrow> bool" where
  "steadyEvent cfg T (SetEnabled b) s = (b = enabled s)"
| "steadyEvent cfg T (Gaze (Some xy)) s = (resolvedId cfg s xy = Some T)"
| "steadyEvent cfg T e s = True"

fun steady :: "config \<Rightarrow> string \<Rightarrow> event list \<Rightarrow> state \<Rightarrow> bool" where
  "steady cfg T [] s = True"
| "steady cfg T (e # es) s = (steadyEvent cfg T e s \<and> steady cfg T es (step cfg e s))"

text \<open>The click events delivered to elements: by \<^verbatim>\<open>click()\<close> or by the dispatched event.\<close>

fun delivered :: "domcall \<Rightarrow> element list" where
  "delivered (ClickOk el) = [el]"
| "delivered (ClickThrew el) = []"
| "delivered (DispatchClick el) = [el]"

definition activations :: "domcall list \<Rightarrow> element list" where
  "activations cs = concat (map delivered cs)"

text \<open>A dwell on \<open>T\<close> is under way: its timeout \<open>tm\<close> is pending, the clicks so far are \<open>c\<close>.\<close>

definition dwelling :: "element \<Rightarrow> string \<Rightarrow> timer \<Rightarrow> domcall list \<Rightarrow> state \<Rightarrow> bool" where
  "dwelling b T tm c s =
     (inv_timers s \<and> tm \<in> set (timers s) \<and> cb tm = DwellComplete b T
      \<and> currentHoveredRef s = Some T \<and> hoveredElement s = Some T \<and> calls s = c)"

definition ex_dom_throwing :: dom where
  "ex_dom_throwing =
     \<lparr>elementsFromPoint = (\<lambda>x y. if x = 10 \<and> y = 10 then [ex_apple] else []),
      clickThrows = (\<lambda>el. True)\<rparr>"

definition ex_stream :: "event list" where
  "ex_stream = [Tick, Gaze (Some (10, 10)), Tick]"

definition ex_throwing_running :: state where
  "ex_throwing_running = run ex_hooks ex_started (mount ex_hooks ex_dom_throwing False)"

text \<open>
  The progress is tied to the hovered target: 0 without one, and with one at most the
  share of the dwell time that has passed since the dwell began.
\<close>

definition elapsedShare :: "config \<Rightarrow> nat \<Rightarrow> nat \<Rightarrow> real" where
  "elapsedShare cfg n a = (real n - real a) / real (dwellTime cfg) * 100"

definition inv_dwell :: "config \<Rightarrow> state \<Rightarrow> bool" where
  "inv_dwell cfg s =
     (hoveredElement s = currentHoveredRef s
      \<and> 0 \<le> dwellProgress s \<and> dwellProgress s \<le> 100
      \<and> (currentHoveredRef s = None \<longrightarrow> dwellProgress s = 0 \<and> noDwell s)
      \<and> (currentHoveredRef s \<noteq> None \<longrightarrow>
            dwellStartTimeRef s \<le> now s
            \<and> dwellProgress s \<le> elapsedShare cfg (now s) (dwellStartTimeRef s)))"

text \<open>From \<open>s\<close> to \<open>x\<close> the progress has grown on the same target, or the target was cleared.\<close>

definition progressed :: "state \<Rightarrow> state \<Rightarrow> bool" where
  "progressed s x =
     ((hoveredElement x = hoveredElement s \<and> dwellProgress s \<le> dwellProgress x)
      \<or> (hoveredElement x = None \<and> dwellProgress x = 0 \<and> hoveredElement s \<noteq> None))"

section \<open>Target resolution\<close>

lemma find_append_tagged:
  "find P (xs @ ys) = (case find P xs of None \<Rightarrow> find P ys | Some x \<Rightarrow> Some x)"
  by (induction xs) auto

lemma nearbyButton_tagged: "nearbyButton d ps = Some el \<Longrightarrow> hasAttribute el"
  by (induction ps) (auto split: option.splits simp: find_Some_iff)

lemma find_None_list_ex: "find P xs = None \<longleftrightarrow> \<not> list_ex P xs"
  by (auto simp add: find_None_iff list_ex_iff)

text \<open>
  Claim C4, as the code has it. A tagged element in the hit list of the point wins (the
  first one); otherwise the first tagged element at the probe 50 above, below, left or
  right of the point, in that order; only when the probes find nothing either, the
  nearest tagged ancestor of the first HTML element of the hit list that has one; and
  null when that fails too. The tagged ancestor is looked for after the probes, not
  before them.
\<close>

theorem resolution_order:
  "findButton d x y =
     (case find hasAttribute (elementsFromPoint d x y) of
        Some el \<Rightarrow> Some el
      | None \<Rightarrow>
     (case find hasAttribute (elementsFromPoint d x (y - 50)) of
        Some el \<Rightarrow> Some el
      | None \<Rightarrow>
     (case find hasAttribute (elementsFromPoint d x (y + 50)) of
        Some el \<Rightarrow> Some el
      | None \<Rightarrow>
     (case find hasAttribute (elementsFromPoint d (x - 50) y) of
        Some el \<Rightarrow> Some el
      | None \<Rightarrow>
     (case find hasAttribute (elementsFromPoint d (x + 50) y) of
        Some el \<Rightarrow> Some el
      | None \<Rightarrow> closestLoop (elementsFromPoint d x y))))))"
proof (cases "find hasAttribute (elementsFromPoint d x y)")
  case (Some el)
  then have "list_ex hasAttribute (elementsFromPoint d x y)"
    using find_None_list_ex [of hasAttribute "elementsFromPoint d x y"] by simp
  with Some show ?thesis
    by (simp add: findButton_def toleranceCheck_def)
next
  case None
  then have no: "\<not> list_ex hasAttribute (elementsFromPoint d x y)"
    by (simp add: find_None_list_ex)
  show ?thesis
  proof (cases "nearbyButton d (pointsToCheck x y)")
    case nb: None
    with None no show ?thesis
      by (simp add: findButton_def toleranceCheck_def pointsToCheck_def tolerance_def
               split: option.splits)
  next
    case nb: (Some b)
    then have "hasAttribute b" by (rule nearbyButton_tagged)
    with None no nb show ?thesis
      by (auto simp add: findButton_def toleranceCheck_def pointsToCheck_def tolerance_def
               find_append_tagged split: option.splits)
  qed
qed

text \<open>The probe below the point (100, 0) finds the banana button.\<close>

theorem resolution_order_witness:
  "findButton dom_probe_first 100 0 = Some ex_banana"
  using resolution_order [of dom_probe_first 100 0]
  by (simp add: ex_apple_def ex_banana_def ex_label_def dom_probe_first_def hasAttribute_def)

text \<open>
  Claim C4 as worded fails. With an untagged label of the apple button under the point
  and the banana button at the upper probe, the code resolves to banana, where step 1 of
  the specification gives the tagged ancestor apple. And where neither the hit list
  nor any probe holds a tagged element, the code still resolves to the ancestor apple
  instead of null.
\<close>

theorem resolution_order_counterexample:
  "findButton dom_probe_first 100 100 = Some ex_banana
   \<and> resolve_spec dom_probe_first 100 100 = Some ex_apple
   \<and> ex_banana \<noteq> ex_apple
   \<and> find hasAttribute (elementsFromPoint dom_ancestor_only 100 100) = None
   \<and> nearbyButton dom_ancestor_only (pointsToCheck 100 100) = None
   \<and> findButton dom_ancestor_only 100 100 = Some ex_apple"
  by (simp add: ex_apple_def ex_banana_def ex_label_def dom_probe_first_def
        dom_ancestor_only_def findButton_def toleranceCheck_def pointsToCheck_def
        tolerance_def hasAttribute_def resolve_spec_def)

section \<open>Reachable states\<close>

lemma runDue_rule:
  assumes "P s"
    and "\<And>t s. P s \<Longrightarrow> t \<in> set (timers s) \<Longrightarrow> due t \<le> now s \<Longrightarrow> P (fire cfg t s)"
  shows "P (runDue cfg ts s)"
  using assms(1)
proof (induction ts arbitrary: s)
  case Nil
  then show ?case by simp
next
  case (Cons t ts)
  then show ?case using assms(2) by simp
qed

subsection \<open>What each handler does to the state\<close>

lemma clearRef_eq:
  "clearRef r s = s\<lparr>timers := filter (\<lambda>t. Some (tid t) \<noteq> r) (timers s)\<rparr>"
  by (cases r) (simp_all add: clearRef_def clearTimer_def)

lemma startDwell_eq:
  "startDwell cfg b e s =
     s\<lparr>currentHoveredRef := Some e, hoveredElement := Some e,
       dwellStartTimeRef := now s, dwellProgress := 0,
       timers := filter (\<lambda>t. Some (tid t) \<noteq> dwellTimerRef s
                            \<and> Some (tid t) \<noteq> progressIntervalRef s) (timers s)
                 @ [\<lparr>tid = nextTimer s, due = now s + 50, cb = ProgressTick\<rparr>,
                    \<lparr>tid = nextTimer s + 1, due = now s + dwellTime cfg,
                     cb = DwellComplete b e\<rparr>],
       nextTimer := nextTimer s + 2,
       progressIntervalRef := Some (nextTimer s),
       dwellTimerRef := Some (nextTimer s + 1)\<rparr>"
  by (cases "dwellTimerRef s"; cases "progressIntervalRef s")
     (simp_all add: startDwell_def setTimer_def clearTimer_def Let_def conj_commute)

lemma stopDwell_eq:
  "stopDwell s =
     s\<lparr>currentHoveredRef := None, hoveredElement := None, dwellProgress := 0,
       timers := filter (\<lambda>t. Some (tid t) \<noteq> dwellTimerRef s
                            \<and> Some (tid t) \<noteq> progressIntervalRef s) (timers s),
       dwellTimerRef := None, progressIntervalRef := None\<rparr>"
  by (cases "dwellTimerRef s"; cases "progressIntervalRef s")
     (simp_all add: stopDwell_def clearTimer_def Let_def conj_commute)

lemma dwellTimerCallback_eq:
  "dwellTimerCallback b e s =
     s\<lparr>calls := calls s @ (if clickThrows (document s) b
                            then [ClickThrew b, DispatchClick b] else [ClickOk b]),
       currentHoveredRef := None, hoveredElement := None, dwellProgress := 0,
       timers := filter (\<lambda>t. Some (tid t) \<noteq> progressIntervalRef s) (timers s),
       progressIntervalRef := None\<rparr>"
  by (cases "progressIntervalRef s")
     (simp_all add: dwellTimerCallback_def activate_def clearTimer_def Let_def)

lemma handleMouseMove_eq:
  "handleMouseMove e s =
     s\<lparr>isUsingMouse := True, isUsingMouseRef := True, gazePosition := Some e,
       timers := filter (\<lambda>t. Some (tid t) \<noteq> mouseInactivityTimerRef s) (timers s)
                 @ [\<lparr>tid = nextTimer s, due = now s + 5000, cb = MouseInactive\<rparr>],
       nextTimer := nextTimer s + 1,
       mouseInactivityTimerRef := Some (nextTimer s)\<rparr>"
  by (simp add: handleMouseMove_def clearRef_eq setTimer_def Let_def)


subsection \<open>Timers and the references that hold them\<close>

lemma inv_timers_upd [simp]:
    "inv_timers (s\<lparr>gazePosition := v0\<rparr>) = inv_timers s"
    "inv_timers (s\<lparr>hoveredElement := v1\<rparr>) = inv_timers s"
    "inv_timers (s\<lparr>dwellProgress := v2\<rparr>) = inv_timers s"
    "inv_timers (s\<lparr>isInitialized := v3\<rparr>) = inv_timers s"
    "inv_timers (s\<lparr>isUsingMouse := v4\<rparr>) = inv_timers s"
    "inv_timers (s\<lparr>dwellStartTimeRef := v5\<rparr>) = inv_timers s"
    "inv_timers (s\<lparr>currentHoveredRef := v6\<rparr>) = inv_timers s"
    "inv_timers (s\<lparr>isUsingMouseRef := v7\<rparr>) = inv_timers s"
    "inv_timers (s\<lparr>latestGazePositionRef := v8\<rparr>) = inv_timers s"
    "inv_timers (s\<lparr>webgazerInitialized := v9\<rparr>) = inv_timers s"
    "inv_timers (s\<lparr>enabled := v10\<rparr>) = inv_timers s"
    "inv_timers (s\<lparr>pendingCleanup := v11\<rparr>) = inv_timers s"
    "inv_timers (s\<lparr>mouseListener := v12\<rparr>) = inv_timers s"
    "inv_timers (s\<lparr>bodyCursor := v13\<rparr>) = inv_timers s"
    "inv_timers (s\<lparr>windowWebgazer := v14\<rparr>) = inv_timers s"
    "inv_timers (s\<lparr>gazeListenerSet := v15\<rparr>) = inv_timers s"
    "inv_timers (s\<lparr>pendingScripts := v16\<rparr>) = inv_timers s"
    "inv_timers (s\<lparr>pendingBegins := v17\<rparr>) = inv_timers s"
    "inv_timers (s\<lparr>scriptAppends := v18\<rparr>) = inv_timers s"
    "inv_timers (s\<lparr>wgCalls := v19\<rparr>) = inv_timers s"
    "inv_timers (s\<lparr>document := v20\<rparr>) = inv_timers s"
    "inv_timers (s\<lparr>calls := v21\<rparr>) = inv_timers s"
    "inv_timers (s\<lparr>now := v22\<rparr>) = inv_timers s"
  by (simp_all add: inv_timers_def)

lemma fresh_filter: "fresh ts n \<Longrightarrow> fresh (filter P ts) n"
  by (simp add: fresh_def distinct_map_filter)

lemma tracked_filter: "tracked K r ts n \<Longrightarrow> tracked K r (filter P ts) n"
  by (simp add: tracked_def)

lemma inv_timers_clearRef [simp]: "inv_timers s \<Longrightarrow> inv_timers (clearRef r s)"
  by (simp add: clearRef_eq inv_timers_def fresh_filter tracked_filter)

lemma inv_timers_clearTimer [simp]: "inv_timers s \<Longrightarrow> inv_timers (clearTimer i s)"
  by (simp add: clearTimer_def inv_timers_def fresh_filter tracked_filter)

lemma inv_timers_startDwell: "inv_timers s \<Longrightarrow> inv_timers (startDwell cfg b e s)"
  unfolding startDwell_eq inv_timers_def fresh_def tracked_def
  by (simp add: distinct_map_filter) (safe; fastforce)

lemma inv_timers_stopDwell: "inv_timers s \<Longrightarrow> inv_timers (stopDwell s)"
  unfolding stopDwell_eq inv_timers_def fresh_def tracked_def
  by (simp add: distinct_map_filter) (safe; fastforce)

lemma inv_timers_handleMouseMove: "inv_timers s \<Longrightarrow> inv_timers (handleMouseMove e s)"
  unfolding handleMouseMove_eq inv_timers_def fresh_def tracked_def
  by (simp add: distinct_map_filter) (safe; fastforce)

lemma inv_timers_beginThen: "inv_timers s \<Longrightarrow> inv_timers (beginThen s)"
  unfolding beginThen_def setTimer_def inv_timers_def fresh_def tracked_def
  by simp (safe; fastforce)


lemma inv_timers_dwellTransition:
  "inv_timers s \<Longrightarrow> inv_timers (dwellTransition cfg b s)"
  by (simp add: dwellTransition_def inv_timers_startDwell inv_timers_stopDwell
        split: option.splits)

lemma inv_timers_gazeListener: "inv_timers s \<Longrightarrow> inv_timers (gazeListener cfg data s)"
  by (simp add: gazeListener_def Let_def inv_timers_dwellTransition split: option.splits)

lemma inv_timers_runCleanup: "inv_timers s \<Longrightarrow> inv_timers (runCleanup cfg s)"
  by (simp add: runCleanup_def Let_def split: cleanup.splits variant.splits)

lemma inv_timers_effectDisabled: "inv_timers s \<Longrightarrow> inv_timers (effectDisabled cfg s)"
  by (simp add: effectDisabled_def Let_def split: variant.splits)

lemma inv_timers_effectEnabled: "inv_timers s \<Longrightarrow> inv_timers (effectEnabled cfg s)"
  by (simp add: effectEnabled_def Let_def split: variant.splits)

lemma inv_timers_setEnabled: "inv_timers s \<Longrightarrow> inv_timers (setEnabled cfg b s)"
  by (simp add: setEnabled_def Let_def inv_timers_runCleanup inv_timers_effectDisabled
        inv_timers_effectEnabled)

lemma fire_DwellComplete:
  "cb t = DwellComplete b e \<Longrightarrow>
   fire cfg t s =
     s\<lparr>calls := calls s @ (if clickThrows (document s) b
                            then [ClickThrew b, DispatchClick b] else [ClickOk b]),
       currentHoveredRef := None, hoveredElement := None, dwellProgress := 0,
       timers := filter (\<lambda>u. tid u \<noteq> tid t \<and> Some (tid u) \<noteq> progressIntervalRef s)
                   (timers s),
       progressIntervalRef := None\<rparr>"
  by (simp add: fire_def dwellTimerCallback_eq clearTimer_def)

lemma fire_ProgressTick:
  "cb t = ProgressTick \<Longrightarrow>
   fire cfg t s =
     s\<lparr>timers := map (\<lambda>u. if tid u = tid t then u\<lparr>due := due u + 50\<rparr> else u) (timers s),
       dwellProgress :=
         min ((real (now s) - real (dwellStartTimeRef s)) / real (dwellTime cfg) * 100) 100\<rparr>"
  by (simp add: fire_def progressIntervalCallback_def rearm_def Let_def)

lemma fire_MouseInactive:
  "cb t = MouseInactive \<Longrightarrow>
   fire cfg t s =
     s\<lparr>timers := filter (\<lambda>u. tid u \<noteq> tid t) (timers s),
       isUsingMouse := False, isUsingMouseRef := False\<rparr>"
  by (simp add: fire_def mouseInactivityCallback_def clearTimer_def)

lemma fire_InitDone:
  "cb t = InitDone \<Longrightarrow>
   fire cfg t s =
     s\<lparr>timers := filter (\<lambda>u. tid u \<noteq> tid t) (timers s), isInitialized := True\<rparr>"
  by (simp add: fire_def initTimeoutCallback_def clearTimer_def)

lemma tracked_unref:
  "tracked K r ts n \<Longrightarrow> tracked K None (filter (\<lambda>u. P u \<and> Some (tid u) \<noteq> r) ts) n"
  by (auto simp add: tracked_def)

lemma fresh_rearm:
  "fresh (map (\<lambda>u. if tid u = i then u\<lparr>due := due u + 50\<rparr> else u) ts) n = fresh ts n"
proof -
  have "map tid (map (\<lambda>u. if tid u = i then u\<lparr>due := due u + 50\<rparr> else u) ts) = map tid ts"
    by (induction ts) simp_all
  moreover have "(\<forall>t \<in> set (map (\<lambda>u. if tid u = i then u\<lparr>due := due u + 50\<rparr> else u) ts). tid t < n)
      = (\<forall>t \<in> set ts. tid t < n)"
    by (induction ts) simp_all
  ultimately show ?thesis
    by (simp only: fresh_def)
qed

lemma tracked_rearm:
  "tracked K r (map (\<lambda>u. if tid u = i then u\<lparr>due := due u + 50\<rparr> else u) ts) n
     = tracked K r ts n"
proof -
  have "(\<forall>t \<in> set (map (\<lambda>u. if tid u = i then u\<lparr>due := due u + 50\<rparr> else u) ts).
           K (cb t) \<longleftrightarrow> r = Some (tid t))
      = (\<forall>t \<in> set ts. K (cb t) \<longleftrightarrow> r = Some (tid t))"
    by (induction ts) simp_all
  then show ?thesis
    by (simp only: tracked_def)
qed

lemma inv_timers_fire:
  assumes "inv_timers s" and "t \<in> set (timers s)"
  shows "inv_timers (fire cfg t s)"
proof (cases "cb t")
  case (DwellComplete b e)
  from assms(1) show ?thesis
    unfolding fire_DwellComplete [OF DwellComplete] inv_timers_def
    by (simp add: fresh_filter tracked_filter tracked_unref)
next
  case ProgressTick
  from assms(1) show ?thesis
    unfolding fire_ProgressTick [OF ProgressTick] inv_timers_def
    by (simp add: fresh_rearm tracked_rearm)
next
  case MouseInactive
  have "tracked (\<lambda>c. c = MouseInactive) (mouseInactivityTimerRef s)
          (filter (\<lambda>u. tid u \<noteq> tid t) (timers s)) (nextTimer s)"
    using assms(1) by (simp add: inv_timers_def tracked_filter)
  with assms(1) show ?thesis
    unfolding fire_MouseInactive [OF MouseInactive] inv_timers_def
    by (simp add: fresh_filter tracked_filter)
next
  case InitDone
  from assms(1) show ?thesis
    unfolding fire_InitDone [OF InitDone] inv_timers_def
    by (simp add: fresh_filter tracked_filter)
qed

lemma inv_timers_tick: "inv_timers s \<Longrightarrow> inv_timers (tick cfg s)"
  unfolding tick_def Let_def
  by (rule runDue_rule) (simp_all add: inv_timers_fire)

lemma inv_timers_commit [simp]: "inv_timers (commit cfg s) = inv_timers s"
  by (simp add: commit_def)

lemma inv_timers_handle: "inv_timers s \<Longrightarrow> inv_timers (handle cfg e s)"
  by (cases e)
     (simp_all add: inv_timers_setEnabled inv_timers_handleMouseMove inv_timers_gazeListener
        inv_timers_beginThen inv_timers_tick scriptOnload_def)

lemma inv_timers_step: "inv_timers s \<Longrightarrow> inv_timers (step cfg e s)"
  by (simp add: step_def inv_timers_handle)

lemma inv_timers_run: "inv_timers s \<Longrightarrow> inv_timers (run cfg es s)"
  by (induction es arbitrary: s) (simp_all add: inv_timers_step)

lemma inv_timers_initialState: "inv_timers (initialState d)"
  by (simp add: inv_timers_def initialState_def fresh_def tracked_def)

lemma inv_timers_mount: "inv_timers (mount cfg d b)"
  using inv_timers_initialState [of d]
  by (simp add: mount_def Let_def inv_timers_effectDisabled inv_timers_effectEnabled)

lemma inv_timers_reachable: "inv_timers (run cfg es (mount cfg d b))"
  by (simp add: inv_timers_run inv_timers_mount)

lemma ref_kind:
  assumes "inv_timers s" and "t \<in> set (timers s)"
  shows "isDwell (cb t) \<longleftrightarrow> dwellTimerRef s = Some (tid t)"
    and "cb t = ProgressTick \<longleftrightarrow> progressIntervalRef s = Some (tid t)"
    and "cb t = MouseInactive \<longleftrightarrow> mouseInactivityTimerRef s = Some (tid t)"
  using assms unfolding inv_timers_def tracked_def by blast+

lemma same_tid:
  assumes "inv_timers s" and "t \<in> set (timers s)" and "u \<in> set (timers s)"
    and "tid t = tid u"
  shows "t = u"
proof -
  from assms(1) have "distinct (map tid (timers s))"
    by (simp add: inv_timers_def fresh_def)
  then have "inj_on tid (set (timers s))"
    by (simp add: distinct_map)
  with assms(2-4) show ?thesis
    by (simp add: inj_on_def)
qed

lemma callback_kinds:
  "\<not> isDwell c \<Longrightarrow> c \<noteq> ProgressTick \<Longrightarrow> c \<noteq> MouseInactive \<Longrightarrow> c = InitDone"
  by (cases c) simp_all

subsection \<open>Timer callbacks away from a dwell\<close>

lemma fire_quiet:
  assumes "noDwell s" and "t \<in> set (timers s)"
  shows "noDwell (fire cfg t s) \<and> calls (fire cfg t s) = calls s
         \<and> hoveredElement (fire cfg t s) = hoveredElement s
         \<and> currentHoveredRef (fire cfg t s) = currentHoveredRef s
         \<and> dwellProgress (fire cfg t s) = dwellProgress s"
proof (cases "cb t")
  case (DwellComplete b e)
  with assms show ?thesis by (auto simp add: noDwell_def)
next
  case ProgressTick
  with assms show ?thesis by (auto simp add: noDwell_def)
next
  case MouseInactive
  with assms(1) show ?thesis
    by (simp add: fire_MouseInactive noDwell_def)
next
  case InitDone
  with assms(1) show ?thesis
    by (simp add: fire_InitDone noDwell_def)
qed

lemma tick_quiet:
  assumes "noDwell s"
  shows "noDwell (tick cfg s) \<and> calls (tick cfg s) = calls s
         \<and> hoveredElement (tick cfg s) = hoveredElement s
         \<and> currentHoveredRef (tick cfg s) = currentHoveredRef s
         \<and> dwellProgress (tick cfg s) = dwellProgress s"
  unfolding tick_def Let_def
proof (rule runDue_rule)
  show "noDwell (s\<lparr>now := now s + 1\<rparr>) \<and> calls (s\<lparr>now := now s + 1\<rparr>) = calls s
        \<and> hoveredElement (s\<lparr>now := now s + 1\<rparr>) = hoveredElement s
        \<and> currentHoveredRef (s\<lparr>now := now s + 1\<rparr>) = currentHoveredRef s
        \<and> dwellProgress (s\<lparr>now := now s + 1\<rparr>) = dwellProgress s"
    using assms by (simp add: noDwell_def)
next
  fix t s'
  assume "noDwell s' \<and> calls s' = calls s \<and> hoveredElement s' = hoveredElement s
          \<and> currentHoveredRef s' = currentHoveredRef s \<and> dwellProgress s' = dwellProgress s"
    and "t \<in> set (timers s')"
  then show "noDwell (fire cfg t s') \<and> calls (fire cfg t s') = calls s
          \<and> hoveredElement (fire cfg t s') = hoveredElement s
          \<and> currentHoveredRef (fire cfg t s') = currentHoveredRef s
          \<and> dwellProgress (fire cfg t s') = dwellProgress s"
    using fire_quiet [of s' t cfg] by simp
qed

lemma commit_fields [simp]:
  "timers (commit cfg s) = timers s" "calls (commit cfg s) = calls s"
  "hoveredElement (commit cfg s) = hoveredElement s"
  "currentHoveredRef (commit cfg s) = currentHoveredRef s"
  "dwellProgress (commit cfg s) = dwellProgress s"
  "now (commit cfg s) = now s" "nextTimer (commit cfg s) = nextTimer s"
  "isUsingMouse (commit cfg s) = isUsingMouse s"
  "isUsingMouseRef (commit cfg s) = isUsingMouseRef s"
  "gazePosition (commit cfg s) = gazePosition s"
  "isInitialized (commit cfg s) = isInitialized s"
  "webgazerInitialized (commit cfg s) = webgazerInitialized s"
  "windowWebgazer (commit cfg s) = windowWebgazer s"
  "enabled (commit cfg s) = enabled s"
  "pendingCleanup (commit cfg s) = pendingCleanup s"
  "mouseListener (commit cfg s) = mouseListener s"
  "gazeListenerSet (commit cfg s) = gazeListenerSet s"
  "pendingScripts (commit cfg s) = pendingScripts s"
  "pendingBegins (commit cfg s) = pendingBegins s"
  "scriptAppends (commit cfg s) = scriptAppends s"
  "wgCalls (commit cfg s) = wgCalls s"
  "document (commit cfg s) = document s"
  "dwellTimerRef (commit cfg s) = dwellTimerRef s"
  "progressIntervalRef (commit cfg s) = progressIntervalRef s"
  "mouseInactivityTimerRef (commit cfg s) = mouseInactivityTimerRef s"
  "dwellStartTimeRef (commit cfg s) = dwellStartTimeRef s"
  by (simp_all add: commit_def)

lemma noDwell_commit [simp]: "noDwell (commit cfg s) = noDwell s"
  by (simp add: noDwell_def)

lemma ticks_quiet:
  "noDwell s \<Longrightarrow>
     noDwell (run cfg (replicate n Tick) s)
     \<and> calls (run cfg (replicate n Tick) s) = calls s
     \<and> hoveredElement (run cfg (replicate n Tick) s) = hoveredElement s
     \<and> currentHoveredRef (run cfg (replicate n Tick) s) = currentHoveredRef s
     \<and> dwellProgress (run cfg (replicate n Tick) s) = dwellProgress s"
proof (induction n arbitrary: s)
  case 0
  then show ?case by simp
next
  case (Suc n)
  have q: "noDwell (step cfg Tick s)" using Suc.prems tick_quiet [of s cfg]
    by (simp add: step_def)
  show ?case
    using Suc.IH [OF q] tick_quiet [OF Suc.prems, of cfg]
    by (simp add: step_def)
qed

subsection \<open>The mouse flag and its inactivity timer\<close>

lemma mouse_timer_refs:
  assumes "inv_timers s" and "t \<in> set (timers s)" and "cb t = MouseInactive"
  shows "Some (tid t) \<noteq> dwellTimerRef s" and "Some (tid t) \<noteq> progressIntervalRef s"
    and "Some (tid t) = mouseInactivityTimerRef s"
  using ref_kind [OF assms(1,2)] assms(3) by auto

lemma armed_filter:
  "(\<And>t. t \<in> set ts \<Longrightarrow> cb t = MouseInactive \<Longrightarrow> Q t) \<Longrightarrow> armed (filter Q ts) = armed ts"
  by (auto simp add: armed_def)

lemma not_armed_filter:
  "(\<And>t. t \<in> set ts \<Longrightarrow> cb t = MouseInactive \<Longrightarrow> \<not> Q t) \<Longrightarrow> \<not> armed (filter Q ts)"
  by (auto simp add: armed_def)

lemma armed_snoc [simp]: "armed (ts @ us) = (armed ts \<or> armed us)"
  by (auto simp add: armed_def)

lemma armed_simps [simp]:
  "armed [] = False" "armed (t # ts) = (cb t = MouseInactive \<or> armed ts)"
  by (auto simp add: armed_def)

lemma armed_rearm [simp]:
  "armed (map (\<lambda>u. if tid u = i then u\<lparr>due := due u + 50\<rparr> else u) ts) = armed ts"
  by (induction ts) simp_all

lemma armed_dwell_filter:
  assumes "inv_timers s"
  shows "armed (filter (\<lambda>t. Some (tid t) \<noteq> dwellTimerRef s
                            \<and> Some (tid t) \<noteq> progressIntervalRef s) (timers s))
         = armed (timers s)"
  by (rule armed_filter) (use mouse_timer_refs(1,2) [OF assms] in blast)

lemma inv_mouse_startDwell:
  assumes "inv_timers s" and "inv_mouse cfg s"
  shows "inv_mouse cfg (startDwell cfg b e s)"
  using assms(2) by (simp add: startDwell_eq inv_mouse_def armed_dwell_filter [OF assms(1)])

lemma inv_mouse_stopDwell:
  assumes "inv_timers s" and "inv_mouse cfg s"
  shows "inv_mouse cfg (stopDwell s)"
  using assms(2) by (simp add: stopDwell_eq inv_mouse_def armed_dwell_filter [OF assms(1)])

lemma inv_mouse_gazePosition [simp]:
  "inv_mouse cfg (s\<lparr>gazePosition := p\<rparr>) = inv_mouse cfg s"
  by (simp add: inv_mouse_def)

lemma inv_mouse_gazeListener:
  assumes "inv_timers s" and "inv_mouse cfg s"
  shows "inv_mouse cfg (gazeListener cfg data s)"
  using assms
  by (simp add: gazeListener_def Let_def dwellTransition_def inv_mouse_startDwell
        inv_mouse_stopDwell split: option.splits)

lemma inv_mouse_handleMouseMove:
  assumes "inv_mouse cfg s" and "mouseListener s"
  shows "inv_mouse cfg (handleMouseMove e s)"
  using assms by (auto simp add: handleMouseMove_eq inv_mouse_def)

lemma timers_runCleanup:
  "\<exists>Q. timers (runCleanup cfg s) = filter Q (timers s)"
proof (cases "pendingCleanup s")
  case NoCleanup
  then have "timers (runCleanup cfg s) = filter (\<lambda>t. True) (timers s)"
    by (simp add: runCleanup_def)
  then show ?thesis by blast
next
  case RemoveListener
  then have "timers (runCleanup cfg s) = filter (\<lambda>t. True) (timers s)"
    by (simp add: runCleanup_def)
  then show ?thesis by blast
next
  case Teardown
  show ?thesis
  proof (cases "variant cfg")
    case Hooks
    with Teardown have "timers (runCleanup cfg s)
        = filter (\<lambda>t. Some (tid t) \<noteq> progressIntervalRef s \<and> Some (tid t) \<noteq> dwellTimerRef s)
            (timers s)"
      by (simp add: runCleanup_def clearRef_eq Let_def)
    then show ?thesis by blast
  next
    case Part002
    with Teardown have "timers (runCleanup cfg s)
        = filter (\<lambda>t. Some (tid t) \<noteq> progressIntervalRef s \<and> Some (tid t) \<noteq> dwellTimerRef s
                   \<and> Some (tid t) \<noteq> mouseInactivityTimerRef s) (timers s)"
      by (simp add: runCleanup_def clearRef_eq Let_def conj_assoc)
    then show ?thesis by blast
  qed
qed

lemma refs_runCleanup [simp]:
  "dwellTimerRef (runCleanup cfg s) = dwellTimerRef s"
  "progressIntervalRef (runCleanup cfg s) = progressIntervalRef s"
  "mouseInactivityTimerRef (runCleanup cfg s) = mouseInactivityTimerRef s"
  "calls (runCleanup cfg s) = calls s"
  "isUsingMouseRef (runCleanup cfg s) = isUsingMouseRef s"
  "now (runCleanup cfg s) = now s"
  by (simp_all add: runCleanup_def clearRef_eq Let_def split: cleanup.splits variant.splits)

lemma timers_effectDisabled:
  "timers (effectDisabled cfg s) =
     filter (\<lambda>t. Some (tid t) \<noteq> dwellTimerRef s \<and> Some (tid t) \<noteq> progressIntervalRef s
                \<and> (variant cfg = Part002 \<longrightarrow> Some (tid t) \<noteq> mouseInactivityTimerRef s))
       (timers s)"
  by (cases "variant cfg") (simp_all add: effectDisabled_def clearRef_eq Let_def conj_assoc)

lemma fields_effectDisabled [simp]:
  "hoveredElement (effectDisabled cfg s) = None"
  "currentHoveredRef (effectDisabled cfg s) = None"
  "dwellProgress (effectDisabled cfg s) = 0"
  "gazePosition (effectDisabled cfg s) = None"
  "calls (effectDisabled cfg s) = calls s"
  "pendingCleanup (effectDisabled cfg s) = NoCleanup"
  "enabled (effectDisabled cfg s) = enabled s"
  "mouseListener (effectDisabled cfg s) = mouseListener s"
  "now (effectDisabled cfg s) = now s"
  by (simp_all add: effectDisabled_def clearRef_eq Let_def split: variant.splits)

lemma mouse_effectDisabled [simp]:
  "variant cfg = Part002 \<Longrightarrow> \<not> isUsingMouse (effectDisabled cfg s)"
  "variant cfg = Part002 \<Longrightarrow> \<not> isUsingMouseRef (effectDisabled cfg s)"
  "variant cfg = Hooks \<Longrightarrow> isUsingMouse (effectDisabled cfg s) = isUsingMouse s"
  "variant cfg = Hooks \<Longrightarrow> isUsingMouseRef (effectDisabled cfg s) = isUsingMouseRef s"
  by (simp_all add: effectDisabled_def clearRef_eq Let_def)

text \<open>Disabling: what is left of the pending timers are the timeouts of \<open>beginThen\<close>.\<close>

lemma disable_timers:
  assumes it: "inv_timers s" and im: "inv_mouse cfg s" and en: "enabled s"
    and t: "t \<in> set (timers (setEnabled cfg False s))"
  shows "cb t = InitDone"
proof -
  obtain Q where Q: "timers (runCleanup cfg s) = filter Q (timers s)"
    using timers_runCleanup by blast
  from t en have t': "t \<in> set (timers (effectDisabled cfg ((runCleanup cfg s)\<lparr>enabled := False\<rparr>)))"
    by (simp add: setEnabled_def Let_def)
  then have mem: "t \<in> set (timers s)"
    and d: "Some (tid t) \<noteq> dwellTimerRef s"
    and p: "Some (tid t) \<noteq> progressIntervalRef s"
    and m: "variant cfg = Part002 \<longrightarrow> Some (tid t) \<noteq> mouseInactivityTimerRef s"
    by (simp_all add: timers_effectDisabled Q)
  have "\<not> isDwell (cb t)" using ref_kind(1) [OF it mem] d by simp
  moreover have "cb t \<noteq> ProgressTick" using ref_kind(2) [OF it mem] p by simp
  moreover have "cb t \<noteq> MouseInactive"
  proof (cases "variant cfg")
    case Hooks
    with im have "\<not> armed (timers s)"
      by (simp add: inv_mouse_def)
    with mem show ?thesis by (auto simp add: armed_def)
  next
    case Part002
    with m ref_kind(3) [OF it mem] show ?thesis by simp
  qed
  ultimately show ?thesis by (rule callback_kinds)
qed

lemma inv_mouse_effectEnabled:
  assumes "inv_mouse cfg s" and "enabled s"
  shows "inv_mouse cfg (effectEnabled cfg s)"
  using assms
  by (cases "variant cfg") (simp_all add: effectEnabled_def inv_mouse_def Let_def)

lemma no_mouse_after_disable:
  assumes it: "inv_timers s" and im: "inv_mouse cfg s" and en: "enabled s"
  shows "\<not> armed (timers (setEnabled cfg False s))"
  using disable_timers [OF it im en] by (fastforce simp add: armed_def)

lemma inv_mouse_setEnabled:
  assumes it: "inv_timers s" and im: "inv_mouse cfg s"
  shows "inv_mouse cfg (setEnabled cfg b s)"
proof (cases "b = enabled s")
  case True
  with im show ?thesis by (simp add: setEnabled_def)
next
  case False
  show ?thesis
  proof (cases b)
    case True
    with False have dis: "\<not> enabled s" by simp
    with im have nc: "pendingCleanup s = NoCleanup" by (simp add: inv_mouse_def)
    then have rc: "runCleanup cfg s = s" by (simp add: runCleanup_def)
    have "inv_mouse cfg (s\<lparr>enabled := True\<rparr>)"
      using im nc by (simp add: inv_mouse_def)
    then have "inv_mouse cfg (effectEnabled cfg (s\<lparr>enabled := True\<rparr>))"
      by (rule inv_mouse_effectEnabled) simp
    with True dis rc show ?thesis by (simp add: setEnabled_def Let_def)
  next
    case b: False
    with False have en: "enabled s" by simp
    let ?s' = "setEnabled cfg False s"
    have eq: "?s' = effectDisabled cfg ((runCleanup cfg s)\<lparr>enabled := False\<rparr>)"
      using en by (simp add: setEnabled_def Let_def)
    have nm: "\<not> armed (timers ?s')"
      by (rule no_mouse_after_disable [OF it im en])
    have flags: "\<not> isUsingMouse ?s' \<and> \<not> isUsingMouseRef ?s'"
    proof (cases "variant cfg")
      case Hooks
      with im have "\<not> isUsingMouse s \<and> \<not> isUsingMouseRef s" by (simp add: inv_mouse_def)
      with Hooks show ?thesis
        by (simp add: eq runCleanup_def clearRef_eq Let_def split: cleanup.splits)
    next
      case Part002
      then show ?thesis by (simp add: eq)
    qed
    have ml: "variant cfg = Hooks \<longrightarrow> \<not> mouseListener ?s'"
      using im by (auto simp add: eq inv_mouse_def runCleanup_def clearRef_eq Let_def
            split: cleanup.splits)
    have "pendingCleanup ?s' = NoCleanup" by (simp add: eq)
    with nm flags ml b show ?thesis
      by (simp add: inv_mouse_def)
  qed
qed

lemma inv_mouse_fire:
  assumes it: "inv_timers s" and im: "inv_mouse cfg s" and t: "t \<in> set (timers s)"
  shows "inv_mouse cfg (fire cfg t s)"
proof (cases "cb t")
  case c: (DwellComplete b e)
  have "armed (filter (\<lambda>u. tid u \<noteq> tid t \<and> Some (tid u) \<noteq> progressIntervalRef s) (timers s))
        = armed (timers s)"
  proof (rule armed_filter)
    fix u assume u: "u \<in> set (timers s)" "cb u = MouseInactive"
    then have "u \<noteq> t" using c by auto
    then have "tid u \<noteq> tid t" using same_tid [OF it u(1) t] by blast
    with mouse_timer_refs(2) [OF it u]
    show "tid u \<noteq> tid t \<and> Some (tid u) \<noteq> progressIntervalRef s" by simp
  qed
  with im show ?thesis
    by (simp add: fire_DwellComplete [OF c] inv_mouse_def)
next
  case c: ProgressTick
  with im show ?thesis
    by (simp add: fire_ProgressTick [OF c] inv_mouse_def)
next
  case c: MouseInactive
  have "\<not> armed (filter (\<lambda>u. tid u \<noteq> tid t) (timers s))"
  proof (rule not_armed_filter)
    fix u assume u: "u \<in> set (timers s)" "cb u = MouseInactive"
    from mouse_timer_refs(3) [OF it u] mouse_timer_refs(3) [OF it t c]
    have "Some (tid u) = Some (tid t)" by (rule trans [OF _ sym])
    then show "\<not> tid u \<noteq> tid t" by simp
  qed
  with im show ?thesis
    by (simp add: fire_MouseInactive [OF c] inv_mouse_def)
next
  case c: InitDone
  have "armed (filter (\<lambda>u. tid u \<noteq> tid t) (timers s)) = armed (timers s)"
  proof (rule armed_filter)
    fix u assume u: "u \<in> set (timers s)" "cb u = MouseInactive"
    then have "u \<noteq> t" using c by auto
    then show "tid u \<noteq> tid t" using same_tid [OF it u(1) t] by blast
  qed
  with im show ?thesis
    by (simp add: fire_InitDone [OF c] inv_mouse_def)
qed

lemma inv_mouse_now [simp]: "inv_mouse cfg (s\<lparr>now := n\<rparr>) = inv_mouse cfg s"
  by (simp add: inv_mouse_def)

lemma inv_both_tick:
  assumes "inv_timers s" and "inv_mouse cfg s"
  shows "inv_timers (tick cfg s) \<and> inv_mouse cfg (tick cfg s)"
  unfolding tick_def Let_def
  by (rule runDue_rule) (simp_all add: assms inv_timers_fire inv_mouse_fire)

lemma inv_mouse_commit [simp]: "inv_mouse cfg (commit cfg s) = inv_mouse cfg s"
  by (simp add: inv_mouse_def)

lemma inv_mouse_handle:
  assumes "inv_timers s" and "inv_mouse cfg s"
  shows "inv_mouse cfg (handle cfg e s)"
proof (cases e)
  case (SetEnabled b)
  with assms show ?thesis by (simp add: inv_mouse_setEnabled)
next
  case (MouseMove p)
  with assms show ?thesis by (simp add: inv_mouse_handleMouseMove)
next
  case (Gaze data)
  with assms show ?thesis by (simp add: inv_mouse_gazeListener)
next
  case ScriptLoaded
  with assms(2) show ?thesis by (simp add: scriptOnload_def inv_mouse_def)
next
  case ScriptError
  with assms(2) show ?thesis by (simp add: inv_mouse_def)
next
  case BeginResolved
  with assms(2) show ?thesis by (simp add: beginThen_def setTimer_def inv_mouse_def)
next
  case BeginRejected
  with assms(2) show ?thesis by (simp add: inv_mouse_def)
next
  case (DomUpdate d)
  with assms(2) show ?thesis by (simp add: inv_mouse_def)
next
  case Tick
  with assms show ?thesis by (simp add: inv_both_tick)
qed

lemma inv_both_run:
  "inv_timers s \<Longrightarrow> inv_mouse cfg s \<Longrightarrow>
   inv_timers (run cfg es s) \<and> inv_mouse cfg (run cfg es s)"
  by (induction es arbitrary: s) (simp_all add: step_def inv_timers_handle inv_mouse_handle)

lemma inv_mouse_mount: "inv_mouse cfg (mount cfg d b)"
  by (cases "variant cfg"; cases b)
     (simp_all add: mount_def Let_def inv_mouse_def effectEnabled_def effectDisabled_def
        clearRef_eq initialState_def)

lemma inv_reachable:
  "inv_timers (run cfg es (mount cfg d b))" "inv_mouse cfg (run cfg es (mount cfg d b))"
  using inv_both_run [OF inv_timers_mount inv_mouse_mount] by simp_all

subsection \<open>Disabling\<close>

lemma fields_effectEnabled [simp]:
  "timers (effectEnabled cfg s) = timers s"
  "calls (effectEnabled cfg s) = calls s"
  "hoveredElement (effectEnabled cfg s) = hoveredElement s"
  "currentHoveredRef (effectEnabled cfg s) = currentHoveredRef s"
  "dwellProgress (effectEnabled cfg s) = dwellProgress s"
  "now (effectEnabled cfg s) = now s"
  by (simp_all add: effectEnabled_def Let_def split: variant.splits)

lemma fields_runCleanup [simp]:
  "hoveredElement (runCleanup cfg s) = hoveredElement s"
  "currentHoveredRef (runCleanup cfg s) = currentHoveredRef s"
  "dwellProgress (runCleanup cfg s) = dwellProgress s"
  by (simp_all add: runCleanup_def clearRef_eq Let_def split: cleanup.splits variant.splits)

lemma noDwell_filter: "noDwell s \<Longrightarrow> timers s' = filter Q (timers s) \<Longrightarrow> noDwell s'"
  by (simp add: noDwell_def)

lemma noDwell_setEnabled:
  assumes "noDwell s"
  shows "noDwell (setEnabled cfg b s)"
proof -
  obtain Q where Q: "timers (runCleanup cfg s) = filter Q (timers s)"
    using timers_runCleanup by blast
  then have "noDwell (runCleanup cfg s)" using assms by (rule noDwell_filter [rotated])
  then have a: "noDwell ((runCleanup cfg s)\<lparr>enabled := b\<rparr>)" by (simp add: noDwell_def)
  then have "noDwell (effectDisabled cfg ((runCleanup cfg s)\<lparr>enabled := b\<rparr>))"
    by (rule noDwell_filter) (rule timers_effectDisabled)
  moreover have "noDwell (effectEnabled cfg ((runCleanup cfg s)\<lparr>enabled := b\<rparr>))"
    using a by (simp add: noDwell_def)
  ultimately show ?thesis using assms by (cases b) (simp_all add: setEnabled_def Let_def)
qed

lemma calls_setEnabled [simp]: "calls (setEnabled cfg b s) = calls s"
  by (simp add: setEnabled_def Let_def)

text \<open>
  Claim C3. When \<^verbatim>\<open>enabled\<close> flips to false in any reachable state (a dwell in
  progress included), the hovered target is null and the progress 0 at once; no dwell
  timer, progress interval or mouse inactivity timer is pending any more (what remains
  are timeouts of \<open>beginThen\<close>, which no reference holds); and however long the clock
  runs afterwards, no click is added and both values stay cleared.
\<close>

theorem disable_cancels_dwell:
  assumes "s = run cfg es (mount cfg d b)" and "enabled s"
  shows "hoveredElement (step cfg (SetEnabled False) s) = None
         \<and> dwellProgress (step cfg (SetEnabled False) s) = 0
         \<and> (\<forall>t \<in> set (timers (step cfg (SetEnabled False) s)). cb t = InitDone)
         \<and> (\<forall>n. calls (run cfg (replicate n Tick) (step cfg (SetEnabled False) s)) = calls s
                \<and> hoveredElement (run cfg (replicate n Tick) (step cfg (SetEnabled False) s))
                    = None
                \<and> dwellProgress (run cfg (replicate n Tick) (step cfg (SetEnabled False) s))
                    = 0)"
proof -
  let ?s' = "step cfg (SetEnabled False) s"
  have it: "inv_timers s" and im: "inv_mouse cfg s"
    using assms(1) inv_reachable by simp_all
  have eq: "setEnabled cfg False s = effectDisabled cfg ((runCleanup cfg s)\<lparr>enabled := False\<rparr>)"
    using assms(2) by (simp add: setEnabled_def Let_def)
  have h: "hoveredElement ?s' = None" and p: "dwellProgress ?s' = 0"
    and c: "calls ?s' = calls s"
    by (simp_all add: step_def eq)
  have t: "\<forall>t \<in> set (timers ?s'). cb t = InitDone"
    using disable_timers [OF it im assms(2)] by (simp add: step_def)
  then have "noDwell ?s'" by (auto simp add: noDwell_def)
  from ticks_quiet [OF this, of cfg] h p c t show ?thesis by simp
qed

text \<open>The example of a dwell under way: 60 ms into a dwell of 100 ms on the apple.\<close>

lemma ex_mid_dwell_snapshot:
  "snapshot ex_mid_dwell = (True, Some (10, 10), Some ''apple'', 50, False, False, [])"
  by code_simp

theorem disable_cancels_dwell_witness:
  "enabled ex_mid_dwell \<and> hoveredElement ex_mid_dwell = Some ''apple''
   \<and> dwellProgress ex_mid_dwell = 50
   \<and> hoveredElement (step ex_cfg (SetEnabled False) ex_mid_dwell) = None
   \<and> dwellProgress (step ex_cfg (SetEnabled False) ex_mid_dwell) = 0
   \<and> calls (run ex_cfg (replicate 100 Tick) (step ex_cfg (SetEnabled False) ex_mid_dwell)) = []"
proof -
  from ex_mid_dwell_snapshot
  have en: "enabled ex_mid_dwell" and hv: "hoveredElement ex_mid_dwell = Some ''apple''"
    and pr: "dwellProgress ex_mid_dwell = 50" and cl: "calls ex_mid_dwell = []"
    by (simp_all add: snapshot_def)
  have r: "ex_mid_dwell
      = run ex_cfg (ex_started @ [Gaze (Some (10, 10))] @ replicate 60 Tick)
          (mount ex_cfg ex_dom False)"
    by (simp only: ex_mid_dwell_def)
  from disable_cancels_dwell [OF r en] en hv pr cl show ?thesis by simp
qed

subsection \<open>Pointer movement and the dwell\<close>

lemma filter_kind_keep:
  "(\<And>t. t \<in> set ts \<Longrightarrow> K t \<Longrightarrow> Q t) \<Longrightarrow> filter K (filter Q ts) = filter K ts"
  by (induction ts) auto

lemma handleMouseMove_others:
  assumes "inv_timers s"
  shows "filter (\<lambda>t. cb t \<noteq> MouseInactive) (timers (handleMouseMove e s))
         = filter (\<lambda>t. cb t \<noteq> MouseInactive) (timers s)"
proof -
  have "filter (\<lambda>t. cb t \<noteq> MouseInactive)
          (filter (\<lambda>t. Some (tid t) \<noteq> mouseInactivityTimerRef s) (timers s))
        = filter (\<lambda>t. cb t \<noteq> MouseInactive) (timers s)"
    by (rule filter_kind_keep) (use ref_kind(3) [OF assms] in auto)
  then show ?thesis by (simp add: handleMouseMove_eq)
qed

lemma idle_handle:
  assumes "idle s" and "\<not> isGazeSample e"
  shows "idle (handle cfg e s)"
proof (cases e)
  case (SetEnabled b)
  have "noDwell (setEnabled cfg b s)" using assms(1) by (simp add: idle_def noDwell_setEnabled)
  moreover have "currentHoveredRef (setEnabled cfg b s) = None
      \<and> hoveredElement (setEnabled cfg b s) = None"
    using assms(1) by (simp add: idle_def setEnabled_def Let_def)
  ultimately show ?thesis using assms(1) SetEnabled by (simp add: idle_def)
next
  case (MouseMove p)
  with assms(1) show ?thesis by (simp add: idle_def noDwell_def handleMouseMove_eq)
next
  case (Gaze data)
  with assms(2) have "data = None" by (cases data) simp_all
  with Gaze assms(1) show ?thesis by (simp add: gazeListener_def)
next
  case ScriptLoaded
  with assms(1) show ?thesis by (simp add: idle_def noDwell_def scriptOnload_def)
next
  case ScriptError
  with assms(1) show ?thesis by (simp add: idle_def noDwell_def)
next
  case BeginResolved
  with assms(1) show ?thesis by (simp add: idle_def noDwell_def beginThen_def setTimer_def)
next
  case BeginRejected
  with assms(1) show ?thesis by (simp add: idle_def noDwell_def)
next
  case (DomUpdate d)
  with assms(1) show ?thesis by (simp add: idle_def noDwell_def)
next
  case Tick
  with assms(1) tick_quiet [of s cfg] show ?thesis by (simp add: idle_def)
qed

lemma idle_run:
  "idle s \<Longrightarrow> \<forall>e \<in> set es. \<not> isGazeSample e \<Longrightarrow> idle (run cfg es s)"
proof (induction es arbitrary: s)
  case Nil
  then show ?case by simp
next
  case (Cons e es)
  then have "idle (handle cfg e s)" by (simp add: idle_handle)
  then have "idle (step cfg e s)" by (simp add: step_def idle_def)
  with Cons show ?case by simp
qed

lemma idle_mount: "idle (mount cfg d b)"
  by (cases "variant cfg"; cases b)
     (simp_all add: mount_def Let_def idle_def noDwell_def effectEnabled_def effectDisabled_def
        clearRef_eq initialState_def commit_def)

text \<open>
  Claim C10. In every reachable state the mouse-move event leaves the hovered target, its
  reference, the progress, the dwell references, the start time, the clicks and every
  pending timer other than the inactivity timer as they were. And a run without gaze
  samples never sets a hovered target and never clicks, wherever the mouse rests.
\<close>

theorem pointer_moves_never_dwell:
  "(hoveredElement (step cfg (MouseMove e) (run cfg es (mount cfg d b)))
      = hoveredElement (run cfg es (mount cfg d b))
    \<and> currentHoveredRef (step cfg (MouseMove e) (run cfg es (mount cfg d b)))
      = currentHoveredRef (run cfg es (mount cfg d b))
    \<and> dwellProgress (step cfg (MouseMove e) (run cfg es (mount cfg d b)))
      = dwellProgress (run cfg es (mount cfg d b))
    \<and> dwellTimerRef (step cfg (MouseMove e) (run cfg es (mount cfg d b)))
      = dwellTimerRef (run cfg es (mount cfg d b))
    \<and> progressIntervalRef (step cfg (MouseMove e) (run cfg es (mount cfg d b)))
      = progressIntervalRef (run cfg es (mount cfg d b))
    \<and> dwellStartTimeRef (step cfg (MouseMove e) (run cfg es (mount cfg d b)))
      = dwellStartTimeRef (run cfg es (mount cfg d b))
    \<and> calls (step cfg (MouseMove e) (run cfg es (mount cfg d b)))
      = calls (run cfg es (mount cfg d b))
    \<and> filter (\<lambda>t. cb t \<noteq> MouseInactive)
        (timers (step cfg (MouseMove e) (run cfg es (mount cfg d b))))
      = filter (\<lambda>t. cb t \<noteq> MouseInactive) (timers (run cfg es (mount cfg d b))))
   \<and> ((\<forall>e \<in> set es. \<not> isGazeSample e) \<longrightarrow>
        hoveredElement (run cfg es (mount cfg d b)) = None
        \<and> calls (run cfg es (mount cfg d b)) = [])"
proof -
  let ?s = "run cfg es (mount cfg d b)"
  have it: "inv_timers ?s" by (rule inv_reachable)
  have frame: "hoveredElement (step cfg (MouseMove e) ?s) = hoveredElement ?s
    \<and> currentHoveredRef (step cfg (MouseMove e) ?s) = currentHoveredRef ?s
    \<and> dwellProgress (step cfg (MouseMove e) ?s) = dwellProgress ?s
    \<and> dwellTimerRef (step cfg (MouseMove e) ?s) = dwellTimerRef ?s
    \<and> progressIntervalRef (step cfg (MouseMove e) ?s) = progressIntervalRef ?s
    \<and> dwellStartTimeRef (step cfg (MouseMove e) ?s) = dwellStartTimeRef ?s
    \<and> calls (step cfg (MouseMove e) ?s) = calls ?s"
    by (simp add: step_def handleMouseMove_eq)
  have others: "filter (\<lambda>t. cb t \<noteq> MouseInactive) (timers (step cfg (MouseMove e) ?s))
      = filter (\<lambda>t. cb t \<noteq> MouseInactive) (timers ?s)"
    using handleMouseMove_others [OF it] by (simp add: step_def)
  have "(\<forall>e \<in> set es. \<not> isGazeSample e) \<longrightarrow> idle ?s"
    using idle_run [OF idle_mount] by blast
  with frame others show ?thesis by (simp add: idle_def)
qed

theorem pointer_moves_never_dwell_witness:
  "hoveredElement (run ex_cfg (ex_started @ [MouseMove (10, 10)] @ replicate 3 Tick)
        (mount ex_cfg ex_dom False)) = None
   \<and> calls (run ex_cfg (ex_started @ [MouseMove (10, 10)] @ replicate 3 Tick)
        (mount ex_cfg ex_dom False)) = []"
proof -
  have h: "\<forall>e \<in> set (ex_started @ [MouseMove (10, 10)] @ replicate 3 Tick). \<not> isGazeSample e"
    by (simp add: ex_started_def)
  from pointer_moves_never_dwell
         [of ex_cfg "(0, 0)" "ex_started @ [MouseMove (10, 10)] @ replicate 3 Tick" ex_dom False]
       h
  show ?thesis by blast
qed

subsection \<open>What the timer callbacks leave alone\<close>

lemma fire_frame: "timerFrame (fire cfg t s) = timerFrame s \<and> now (fire cfg t s) = now s"
  by (cases "cb t")
     (simp_all add: fire_DwellComplete fire_ProgressTick fire_MouseInactive fire_InitDone
        timerFrame_def)

lemma runDue_frame:
  "timerFrame (runDue cfg ts s) = timerFrame s \<and> now (runDue cfg ts s) = now s"
  by (rule runDue_rule) (simp_all add: fire_frame)

lemma tick_frame:
  "timerFrame (tick cfg s) = timerFrame s \<and> now (tick cfg s) = now s + 1"
  using runDue_frame [of cfg "timers (s\<lparr>now := now s + 1\<rparr>)" "s\<lparr>now := now s + 1\<rparr>"]
  by (simp add: tick_def Let_def timerFrame_def)

lemma tick_fields [simp]:
  "webgazerInitialized (tick cfg s) = webgazerInitialized s"
  "windowWebgazer (tick cfg s) = windowWebgazer s"
  "pendingScripts (tick cfg s) = pendingScripts s"
  "pendingBegins (tick cfg s) = pendingBegins s"
  "scriptAppends (tick cfg s) = scriptAppends s"
  "wgCalls (tick cfg s) = wgCalls s"
  "enabled (tick cfg s) = enabled s"
  "pendingCleanup (tick cfg s) = pendingCleanup s"
  "mouseListener (tick cfg s) = mouseListener s"
  "gazeListenerSet (tick cfg s) = gazeListenerSet s"
  "document (tick cfg s) = document s"
  "nextTimer (tick cfg s) = nextTimer s"
  "gazePosition (tick cfg s) = gazePosition s"
  "latestGazePositionRef (tick cfg s) = latestGazePositionRef s"
  "dwellTimerRef (tick cfg s) = dwellTimerRef s"
  "mouseInactivityTimerRef (tick cfg s) = mouseInactivityTimerRef s"
  "dwellStartTimeRef (tick cfg s) = dwellStartTimeRef s"
  "now (tick cfg s) = now s + 1"
  using tick_frame [of cfg s] by (simp_all add: timerFrame_def)

section \<open>The lifecycle of the estimator\<close>

lemma hooks_initialized_handle:
  assumes "variant cfg = Hooks" and "webgazerInitialized s" and "windowWebgazer s"
    and "pendingScripts s = 0"
  shows "webgazerInitialized (handle cfg e s) \<and> windowWebgazer (handle cfg e s)
         \<and> pendingScripts (handle cfg e s) = 0
         \<and> scriptAppends (handle cfg e s) = scriptAppends s
         \<and> count_list (wgCalls (handle cfg e s)) Begin = count_list (wgCalls s) Begin"
proof (cases e)
  case (SetEnabled b)
  with assms show ?thesis
    by (cases "pendingCleanup s"; cases b)
       (simp_all add: setEnabled_def runCleanup_def effectEnabled_def effectDisabled_def
          clearRef_eq Let_def)
next
  case (MouseMove p)
  with assms show ?thesis by (simp add: handleMouseMove_eq)
next
  case (Gaze data)
  with assms show ?thesis
    by (simp add: gazeListener_def dwellTransition_def startDwell_eq stopDwell_eq Let_def
          split: option.splits)
next
  case BeginResolved
  with assms show ?thesis by (simp add: beginThen_def setTimer_def)
qed (use assms in simp_all)

text \<open>
  Claim C6, as the code has it. In the revision that pauses (src/hooks/useEyeTracking.ts),
  once the flag of the module is set, the estimator is loaded and no script load is
  outstanding, no run of events appends another script or calls \<^verbatim>\<open>begin()\<close> again, and
  enabling from the disabled state calls \<^verbatim>\<open>resume()\<close> and reports initialized.
\<close>

theorem resume_without_reacquisition:
  assumes "variant cfg = Hooks" and "webgazerInitialized s" and "windowWebgazer s"
    and "pendingScripts s = 0"
  shows "scriptAppends (run cfg es s) = scriptAppends s
         \<and> count_list (wgCalls (run cfg es s)) Begin = count_list (wgCalls s) Begin
         \<and> (\<not> enabled (run cfg es s) \<longrightarrow>
              last (wgCalls (step cfg (SetEnabled True) (run cfg es s))) = Resume
              \<and> isInitialized (step cfg (SetEnabled True) (run cfg es s)))"
proof -
  have inv: "webgazerInitialized (run cfg es s) \<and> windowWebgazer (run cfg es s)
         \<and> pendingScripts (run cfg es s) = 0
         \<and> scriptAppends (run cfg es s) = scriptAppends s
         \<and> count_list (wgCalls (run cfg es s)) Begin = count_list (wgCalls s) Begin"
    using assms(2-4)
  proof (induction es arbitrary: s)
    case Nil
    then show ?case by simp
  next
    case (Cons e es)
    from hooks_initialized_handle [OF assms(1) Cons.prems, of e]
    have h: "webgazerInitialized (step cfg e s)" "windowWebgazer (step cfg e s)"
      "pendingScripts (step cfg e s) = 0"
      and k: "scriptAppends (step cfg e s) = scriptAppends s"
        "count_list (wgCalls (step cfg e s)) Begin = count_list (wgCalls s) Begin"
      by (simp_all add: step_def)
    from Cons.IH [OF h] k show ?case by simp
  qed
  have "\<not> enabled (run cfg es s) \<longrightarrow>
      last (wgCalls (step cfg (SetEnabled True) (run cfg es s))) = Resume
      \<and> isInitialized (step cfg (SetEnabled True) (run cfg es s))"
    using inv assms(1)
    by (cases "pendingCleanup (run cfg es s)")
       (simp_all add: step_def commit_def setEnabled_def runCleanup_def effectEnabled_def
          clearRef_eq Let_def)
  with inv show ?thesis by simp
qed

theorem resume_without_reacquisition_witness:
  "webgazerInitialized ex_hooks_running \<and> windowWebgazer ex_hooks_running
   \<and> pendingScripts ex_hooks_running = 0 \<and> scriptAppends ex_hooks_running = 1
   \<and> scriptAppends
       (run ex_hooks [SetEnabled False, SetEnabled True, SetEnabled False, SetEnabled True]
          ex_hooks_running) = 1
   \<and> count_list
       (wgCalls (run ex_hooks [SetEnabled False, SetEnabled True, SetEnabled False,
                               SetEnabled True] ex_hooks_running)) Begin
     = count_list (wgCalls ex_hooks_running) Begin"
proof -
  have v: "variant ex_hooks = Hooks" by (simp add: ex_hooks_def)
  have a: "webgazerInitialized ex_hooks_running" and b: "windowWebgazer ex_hooks_running"
    and c: "pendingScripts ex_hooks_running = 0" and d: "scriptAppends ex_hooks_running = 1"
    by code_simp+
  from resume_without_reacquisition [OF v a b c, of
      "[SetEnabled False, SetEnabled True, SetEnabled False, SetEnabled True]"] a b c d
  show ?thesis by simp
qed

text \<open>
  Claim C6 as worded fails on the revision that ends the estimator (part_002): after a
  successful start, disabling resets the flag of the module, and the next enable appends
  the script a second time and \<^verbatim>\<open>begin()\<close> is called again when it loads.
\<close>

theorem resume_without_reacquisition_counterexample:
  "webgazerInitialized (run ex_cfg ex_started (mount ex_cfg ex_dom False))
   \<and> scriptAppends (run ex_cfg ex_started (mount ex_cfg ex_dom False)) = 1
   \<and> scriptAppends
       (run ex_cfg (ex_started @ [SetEnabled False, SetEnabled True])
          (mount ex_cfg ex_dom False)) = 2
   \<and> wgCalls
       (run ex_cfg (ex_started @ [SetEnabled False, SetEnabled True, ScriptLoaded])
          (mount ex_cfg ex_dom False)) = [Begin, End, End, Begin]"
  by code_simp

subsection \<open>A pending timer until it is due\<close>

lemma fire_keeps_other:
  assumes it: "inv_timers s" and t0: "t0 \<in> set (timers s)" and t: "t \<in> set (timers s)"
    and ne: "t \<noteq> t0" and np: "cb t0 \<noteq> ProgressTick"
  shows "t0 \<in> set (timers (fire cfg t s))"
proof -
  have tid: "tid t0 \<noteq> tid t" using same_tid [OF it t0 t] ne by blast
  have pr: "Some (tid t0) \<noteq> progressIntervalRef s"
    using ref_kind(2) [OF it t0] np by auto
  show ?thesis
  proof (cases "cb t")
    case (DwellComplete b e)
    then show ?thesis using t0 tid pr by (simp add: fire_DwellComplete)
  next
    case ProgressTick
    have "(\<lambda>u. if tid u = tid t then u\<lparr>due := due u + 50\<rparr> else u) t0 = t0"
      using tid by simp
    then have "t0 \<in> (\<lambda>u. if tid u = tid t then u\<lparr>due := due u + 50\<rparr> else u) ` set (timers s)"
      using t0 by (rule image_eqI [OF sym])
    then show ?thesis using ProgressTick by (simp add: fire_ProgressTick)
  next
    case MouseInactive
    then show ?thesis using t0 tid by (simp add: fire_MouseInactive)
  next
    case InitDone
    then show ?thesis using t0 tid by (simp add: fire_InitDone)
  qed
qed

lemma now_fire [simp]: "now (fire cfg t s) = now s"
  using fire_frame [of cfg t s] by simp

lemma runDue_keeps:
  assumes "inv_timers s" and "t0 \<in> set (timers s)" and "now s < due t0"
    and "cb t0 \<noteq> ProgressTick"
  shows "inv_timers (runDue cfg ts s) \<and> t0 \<in> set (timers (runDue cfg ts s))
         \<and> now (runDue cfg ts s) = now s"
proof (rule runDue_rule)
  show "inv_timers s \<and> t0 \<in> set (timers s) \<and> now s = now s"
    using assms by simp
next
  fix t s'
  assume p: "inv_timers s' \<and> t0 \<in> set (timers s') \<and> now s' = now s"
    and t: "t \<in> set (timers s')" and d: "due t \<le> now s'"
  then have "t \<noteq> t0" using assms(3) by auto
  with p t assms(4) show "inv_timers (fire cfg t s') \<and> t0 \<in> set (timers (fire cfg t s'))
      \<and> now (fire cfg t s') = now s"
    by (simp add: inv_timers_fire fire_keeps_other)
qed

lemma tick_keeps:
  assumes "inv_timers s" and "t0 \<in> set (timers s)" and "now s + 1 < due t0"
    and "cb t0 \<noteq> ProgressTick"
  shows "inv_timers (tick cfg s) \<and> t0 \<in> set (timers (tick cfg s))"
  using runDue_keeps [of "s\<lparr>now := now s + 1\<rparr>" t0 cfg "timers s"] assms
  by (simp add: tick_def Let_def)

lemma ticks_keep:
  "inv_timers s \<Longrightarrow> t0 \<in> set (timers s) \<Longrightarrow> now s + n < due t0 \<Longrightarrow> cb t0 \<noteq> ProgressTick \<Longrightarrow>
   inv_timers (run cfg (replicate n Tick) s) \<and> t0 \<in> set (timers (run cfg (replicate n Tick) s))
   \<and> now (run cfg (replicate n Tick) s) = now s + n"
proof (induction n arbitrary: s)
  case 0
  then show ?case by simp
next
  case (Suc n)
  have a: "inv_timers (step cfg Tick s)" "t0 \<in> set (timers (step cfg Tick s))"
    using tick_keeps [of s t0 cfg] Suc.prems by (simp_all add: step_def)
  have b: "now (step cfg Tick s) = now s + 1" by (simp add: step_def)
  from Suc.IH [OF a] Suc.prems b show ?case by simp
qed

text \<open>A timer that is due when the clock moves does run in that tick.\<close>

lemma runDue_fires_gen:
  assumes other: "\<And>t s. Pre s \<Longrightarrow> t \<in> set (timers s) \<Longrightarrow> t \<noteq> tm \<Longrightarrow> Pre (fire cfg t s)"
    and mem: "\<And>s. Pre s \<Longrightarrow> tm \<in> set (timers s) \<and> due tm \<le> now s"
    and it: "\<And>s. Pre s \<Longrightarrow> Post (fire cfg tm s)"
    and post: "\<And>t s. Post s \<Longrightarrow> t \<in> set (timers s) \<Longrightarrow> Post (fire cfg t s)"
  shows "(tm \<in> set ts \<and> Pre s) \<or> Post s \<Longrightarrow> Post (runDue cfg ts s)"
proof (induction ts arbitrary: s)
  case Nil
  then show ?case by simp
next
  case (Cons t ts)
  show ?case
  proof (cases "Post s")
    case True
    then have "Post (if t \<in> set (timers s) \<and> due t \<le> now s then fire cfg t s else s)"
      using post by simp
    then show ?thesis using Cons.IH by simp
  next
    case False
    with Cons.prems have in_ts: "tm \<in> set (t # ts)" and pre: "Pre s" by simp_all
    show ?thesis
    proof (cases "t = tm")
      case True
      with mem [OF pre] it [OF pre] have "Post (if t \<in> set (timers s) \<and> due t \<le> now s
          then fire cfg t s else s)" by simp
      then show ?thesis using Cons.IH by simp
    next
      case ne: False
      with in_ts have "tm \<in> set ts" by simp
      moreover have "Pre (if t \<in> set (timers s) \<and> due t \<le> now s then fire cfg t s else s)"
        using other [OF pre _ ne] pre by simp
      ultimately show ?thesis using Cons.IH by simp
    qed
  qed
qed

lemma tick_fires:
  assumes other: "\<And>t s. Pre s \<Longrightarrow> t \<in> set (timers s) \<Longrightarrow> t \<noteq> tm \<Longrightarrow> Pre (fire cfg t s)"
    and mem: "\<And>s. Pre s \<Longrightarrow> tm \<in> set (timers s) \<and> due tm \<le> now s"
    and it: "\<And>s. Pre s \<Longrightarrow> Post (fire cfg tm s)"
    and post: "\<And>t s. Post s \<Longrightarrow> t \<in> set (timers s) \<Longrightarrow> Post (fire cfg t s)"
    and pre: "Pre (s\<lparr>now := now s + 1\<rparr>)"
  shows "Post (tick cfg s)"
proof -
  have "tm \<in> set (timers (s\<lparr>now := now s + 1\<rparr>))" using mem [OF pre] by simp
  with pre have "(tm \<in> set (timers (s\<lparr>now := now s + 1\<rparr>)) \<and> Pre (s\<lparr>now := now s + 1\<rparr>))
      \<or> Post (s\<lparr>now := now s + 1\<rparr>)" by simp
  from runDue_fires_gen [of Pre tm cfg Post, OF other mem it post this]
  show ?thesis by (simp add: tick_def Let_def)
qed


lemma run_append: "run cfg (xs @ ys) s = run cfg ys (run cfg xs s)"
  by (induction xs arbitrary: s) simp_all

lemma run_ticks_Suc:
  "run cfg (replicate (Suc n) Tick) s = step cfg Tick (run cfg (replicate n Tick) s)"
  using run_append [of cfg "replicate n Tick" "[Tick]" s]
  by (simp add: replicate_append_same)

lemma isInitialized_fire: "isInitialized s \<Longrightarrow> isInitialized (fire cfg t s)"
  by (cases "cb t")
     (simp_all add: fire_DwellComplete fire_ProgressTick fire_MouseInactive fire_InitDone)

lemma webgazerInitialized_ticks [simp]:
  "webgazerInitialized (run cfg (replicate n Tick) s) = webgazerInitialized s"
  by (induction n arbitrary: s) (simp_all add: step_def)

text \<open>
  Claim C8, as the code has it. Whatever the value of \<^verbatim>\<open>enabled\<close>, the completion of a
  pending \<^verbatim>\<open>begin()\<close> sets the flag of the module, and one second later its timeout sets
  \<^verbatim>\<open>isInitialized\<close>: no callback checks whether the hook was disabled meanwhile.
\<close>

theorem late_begin_not_discarded:
  assumes "s = run cfg es (mount cfg d b)" and "0 < pendingBegins s"
  shows "webgazerInitialized (step cfg BeginResolved s)
         \<and> webgazerInitialized (run cfg (BeginResolved # replicate 1000 Tick) s)
         \<and> isInitialized (run cfg (BeginResolved # replicate 1000 Tick) s)"
proof -
  define t0 where "t0 = \<lparr>tid = nextTimer s, due = now s + 1000, cb = InitDone\<rparr>"
  let ?s1 = "step cfg BeginResolved s"
  let ?s2 = "run cfg (replicate 999 Tick) ?s1"
  have it: "inv_timers s" using assms(1) inv_reachable by simp
  have it1: "inv_timers ?s1" using it by (rule inv_timers_step)
  have w1: "webgazerInitialized ?s1"
    using assms(2) by (simp add: step_def beginThen_def setTimer_def)
  have m1: "t0 \<in> set (timers ?s1)" and n1: "now ?s1 = now s"
    using assms(2) by (simp_all add: step_def beginThen_def setTimer_def t0_def)
  have c0: "cb t0 \<noteq> ProgressTick" and d0: "due t0 = now s + 1000"
    by (simp_all add: t0_def)
  have "now ?s1 + 999 < due t0" using n1 d0 by simp
  from ticks_keep [OF it1 m1 this c0, of cfg]
  have it2: "inv_timers ?s2" and m2: "t0 \<in> set (timers ?s2)" and n2: "now ?s2 = now s + 999"
    using n1 by simp_all
  have "isInitialized (tick cfg ?s2)"
  proof (rule tick_fires [where tm = t0
        and Pre = "\<lambda>x. inv_timers x \<and> t0 \<in> set (timers x) \<and> due t0 \<le> now x"])
    show "inv_timers (?s2\<lparr>now := now ?s2 + 1\<rparr>) \<and> t0 \<in> set (timers (?s2\<lparr>now := now ?s2 + 1\<rparr>))
        \<and> due t0 \<le> now (?s2\<lparr>now := now ?s2 + 1\<rparr>)"
      using it2 m2 n2 d0 by simp
  next
    fix t and x :: state assume "inv_timers x \<and> t0 \<in> set (timers x) \<and> due t0 \<le> now x"
      and "t \<in> set (timers x)" and "t \<noteq> t0"
    then show "inv_timers (fire cfg t x) \<and> t0 \<in> set (timers (fire cfg t x))
        \<and> due t0 \<le> now (fire cfg t x)"
      using c0 by (simp add: inv_timers_fire fire_keeps_other)
  next
    fix x :: state assume "inv_timers x \<and> t0 \<in> set (timers x) \<and> due t0 \<le> now x"
    then show "t0 \<in> set (timers x) \<and> due t0 \<le> now x" by simp
  next
    fix x :: state assume "inv_timers x \<and> t0 \<in> set (timers x) \<and> due t0 \<le> now x"
    show "isInitialized (fire cfg t0 x)" by (simp add: fire_InitDone t0_def)
  next
    fix t and x :: state assume "isInitialized x"
    then show "isInitialized (fire cfg t x)" by (rule isInitialized_fire)
  qed
  then have i3: "isInitialized (step cfg Tick ?s2)" by (simp add: step_def)
  have "run cfg (BeginResolved # replicate 1000 Tick) s = step cfg Tick ?s2"
    using run_ticks_Suc [of cfg 999 ?s1] by simp
  with i3 w1 show ?thesis by (simp add: step_def)
qed

theorem late_begin_not_discarded_witness:
  "\<not> enabled (run ex_hooks ex_late (mount ex_hooks ex_dom False))
   \<and> \<not> webgazerInitialized (run ex_hooks ex_late (mount ex_hooks ex_dom False))
   \<and> 0 < pendingBegins (run ex_hooks ex_late (mount ex_hooks ex_dom False))
   \<and> webgazerInitialized
       (run ex_hooks (BeginResolved # replicate 1000 Tick)
          (run ex_hooks ex_late (mount ex_hooks ex_dom False)))
   \<and> isInitialized
       (run ex_hooks (BeginResolved # replicate 1000 Tick)
          (run ex_hooks ex_late (mount ex_hooks ex_dom False)))"
proof -
  have a: "\<not> enabled (run ex_hooks ex_late (mount ex_hooks ex_dom False))"
    and b: "\<not> webgazerInitialized (run ex_hooks ex_late (mount ex_hooks ex_dom False))"
    and c: "0 < pendingBegins (run ex_hooks ex_late (mount ex_hooks ex_dom False))"
    by code_simp+
  from late_begin_not_discarded [OF refl c] a b c show ?thesis by blast
qed

text \<open>
  Claim C8 as worded fails: the hook is disabled while the script is loading, the script
  loads and \<^verbatim>\<open>begin()\<close> is called and succeeds; the hook is still disabled, and the flag
  of the module is set.
\<close>

theorem late_begin_not_discarded_counterexample:
  "\<not> enabled (run ex_hooks (ex_late @ [BeginResolved]) (mount ex_hooks ex_dom False))
   \<and> webgazerInitialized (run ex_hooks (ex_late @ [BeginResolved]) (mount ex_hooks ex_dom False))
   \<and> wgCalls (run ex_hooks (ex_late @ [BeginResolved]) (mount ex_hooks ex_dom False)) = [Begin]
   \<and> \<not> enabled (run ex_cfg (ex_late @ [BeginResolved]) (mount ex_cfg ex_dom False))
   \<and> webgazerInitialized (run ex_cfg (ex_late @ [BeginResolved]) (mount ex_cfg ex_dom False))"
  by code_simp

section \<open>Arbitration between mouse and gaze\<close>

lemma fire_mouse_flag:
  "cb t \<noteq> MouseInactive \<Longrightarrow>
     isUsingMouse (fire cfg t s) = isUsingMouse s
     \<and> isUsingMouseRef (fire cfg t s) = isUsingMouseRef s"
  by (cases "cb t") (simp_all add: fire_DwellComplete fire_ProgressTick fire_InitDone)

lemma fire_mouse_off:
  "\<not> isUsingMouse s \<Longrightarrow> \<not> isUsingMouse (fire cfg t s)"
  by (cases "cb t")
     (simp_all add: fire_DwellComplete fire_ProgressTick fire_MouseInactive fire_InitDone)

lemma not_mouse_handle:
  assumes "\<not> isUsingMouse s" and "\<not> isMouseMove e"
  shows "\<not> isUsingMouse (handle cfg e s)"
proof (cases e)
  case (SetEnabled b)
  with assms(1) show ?thesis
    by (cases "variant cfg"; cases "pendingCleanup s"; cases b)
       (simp_all add: setEnabled_def runCleanup_def effectEnabled_def effectDisabled_def
          clearRef_eq Let_def)
next
  case (Gaze data)
  with assms(1) show ?thesis
    by (simp add: gazeListener_def dwellTransition_def startDwell_eq stopDwell_eq Let_def
          split: option.splits)
next
  case BeginResolved
  with assms(1) show ?thesis by (simp add: beginThen_def setTimer_def)
next
  case ScriptLoaded
  with assms(1) show ?thesis by (simp add: scriptOnload_def)
next
  case Tick
  have "\<not> isUsingMouse (runDue cfg (timers (s\<lparr>now := now s + 1\<rparr>)) (s\<lparr>now := now s + 1\<rparr>))"
    by (rule runDue_rule) (simp_all add: assms(1) fire_mouse_off)
  with Tick show ?thesis by (simp add: tick_def Let_def)
qed (use assms in simp_all)

lemma not_mouse_run:
  "\<not> isUsingMouse s \<Longrightarrow> \<forall>e \<in> set es. \<not> isMouseMove e \<Longrightarrow> \<not> isUsingMouse (run cfg es s)"
proof (induction es arbitrary: s)
  case Nil
  then show ?case by simp
next
  case (Cons e es)
  then have "\<not> isUsingMouse (step cfg e s)" by (simp add: step_def not_mouse_handle)
  with Cons show ?case by simp
qed

lemma not_mouse_mount: "\<not> isUsingMouse (mount cfg d b)"
  by (cases "variant cfg"; cases b)
     (simp_all add: mount_def Let_def effectEnabled_def effectDisabled_def clearRef_eq
        initialState_def)

lemma pointing_dwell:
  assumes "pointing cfg p tm s"
  shows "pointing cfg p tm (dwellTransition cfg b s)"
proof -
  from assms have it: "inv_timers s" and m: "tm \<in> set (timers s)" and c: "cb tm = MouseInactive"
    by (simp_all add: pointing_def)
  from mouse_timer_refs(1,2) [OF it m c]
  have keep: "tm \<in> set (filter (\<lambda>t. Some (tid t) \<noteq> dwellTimerRef s
                            \<and> Some (tid t) \<noteq> progressIntervalRef s) (timers s))"
    using m by simp
  have "inv_timers (dwellTransition cfg b s)" using it by (rule inv_timers_dwellTransition)
  with assms keep show ?thesis
    by (simp add: pointing_def dwellTransition_def startDwell_eq stopDwell_eq
          split: option.splits)
qed

lemma pointing_commit [simp]:
  "pointing cfg p tm s \<Longrightarrow> pointing cfg p tm (commit cfg s)"
  by (simp add: pointing_def commit_def)

lemma pointing_step:
  assumes "pointing cfg p tm s" and "\<not> isPointerOrToggle e" and "e \<noteq> Tick"
  shows "pointing cfg p tm (step cfg e s) \<and> now (step cfg e s) = now s"
proof -
  have it: "inv_timers (step cfg e s)"
    using assms(1) by (simp add: pointing_def inv_timers_step)
  have v: "variant cfg = Part002" "isUsingMouseRef s" "isUsingMouse s"
    "gazePosition s = Some p" "tm \<in> set (timers s)" "cb tm = MouseInactive"
    using assms(1) by (simp_all add: pointing_def)
  have rest: "isUsingMouse (step cfg e s) \<and> isUsingMouseRef (step cfg e s)
      \<and> gazePosition (step cfg e s) = Some p \<and> latestGazePositionRef (step cfg e s) = Some p
      \<and> tm \<in> set (timers (step cfg e s)) \<and> now (step cfg e s) = now s"
  proof (cases e)
    case (Gaze data)
    have n: "now (dwellTransition cfg b s) = now s" for b
      by (simp add: dwellTransition_def startDwell_eq stopDwell_eq split: option.splits)
    show ?thesis
    proof (cases "gazeListenerSet s \<and> data \<noteq> None")
      case True
      then obtain xy where "data = Some xy" by auto
      with Gaze True v pointing_dwell [OF assms(1)] show ?thesis
        by (simp add: step_def gazeListener_def Let_def n pointing_def commit_def)
    next
      case False
      with Gaze v show ?thesis
        by (cases data) (auto simp add: step_def gazeListener_def commit_def)
    qed
  next
    case BeginResolved
    with v show ?thesis
      by (simp add: step_def commit_def beginThen_def setTimer_def)
  next
    case ScriptLoaded
    with v show ?thesis
      by (simp add: step_def commit_def scriptOnload_def)
  next
    case ScriptError
    with v show ?thesis by (simp add: step_def commit_def)
  next
    case BeginRejected
    with v show ?thesis by (simp add: step_def commit_def)
  next
    case (DomUpdate d)
    with v show ?thesis by (simp add: step_def commit_def)
  qed (use assms in simp_all)
  with it v show ?thesis by (simp add: pointing_def)
qed

lemma pointing_tick_before:
  assumes "pointing cfg p tm s" and "now s + 1 < due tm"
  shows "pointing cfg p tm (step cfg Tick s)"
proof -
  from assms(1) have it: "inv_timers s" and m: "tm \<in> set (timers s)"
    and c: "cb tm = MouseInactive" and f: "isUsingMouse s" "isUsingMouseRef s"
    by (simp_all add: pointing_def)
  let ?s1 = "s\<lparr>now := now s + 1\<rparr>"
  have "inv_timers (runDue cfg (timers ?s1) ?s1) \<and> tm \<in> set (timers (runDue cfg (timers ?s1) ?s1))
        \<and> now (runDue cfg (timers ?s1) ?s1) = now ?s1
        \<and> isUsingMouse (runDue cfg (timers ?s1) ?s1)
        \<and> isUsingMouseRef (runDue cfg (timers ?s1) ?s1)"
  proof (rule runDue_rule)
    show "inv_timers ?s1 \<and> tm \<in> set (timers ?s1) \<and> now ?s1 = now ?s1 \<and> isUsingMouse ?s1
        \<and> isUsingMouseRef ?s1"
      using it m f by simp
  next
    fix t and x :: state
    assume p: "inv_timers x \<and> tm \<in> set (timers x) \<and> now x = now ?s1 \<and> isUsingMouse x
        \<and> isUsingMouseRef x"
      and t: "t \<in> set (timers x)" and d: "due t \<le> now x"
    then have ne: "t \<noteq> tm" using assms(2) by auto
    have "cb t \<noteq> MouseInactive"
    proof
      assume ct: "cb t = MouseInactive"
      from p have itx: "inv_timers x" and mx: "tm \<in> set (timers x)" by simp_all
      from mouse_timer_refs(3) [OF itx t ct] mouse_timer_refs(3) [OF itx mx c]
      have "Some (tid t) = Some (tid tm)" by (rule trans [OF _ sym])
      then have "t = tm" using same_tid [OF itx t mx] by simp
      with ne show False by simp
    qed
    with p t ne c show "inv_timers (fire cfg t x) \<and> tm \<in> set (timers (fire cfg t x))
        \<and> now (fire cfg t x) = now ?s1 \<and> isUsingMouse (fire cfg t x)
        \<and> isUsingMouseRef (fire cfg t x)"
      by (simp add: inv_timers_fire fire_keeps_other fire_mouse_flag)
  qed
  then have "inv_timers (tick cfg s) \<and> tm \<in> set (timers (tick cfg s))
      \<and> isUsingMouse (tick cfg s) \<and> isUsingMouseRef (tick cfg s)"
    by (simp add: tick_def Let_def)
  with assms(1) c show ?thesis
    by (simp add: pointing_def step_def commit_def)
qed

lemma pointing_tick_due:
  assumes "pointing cfg p tm s" and "now s + 1 = due tm"
  shows "\<not> isUsingMouse (step cfg Tick s)"
proof -
  from assms(1) have it: "inv_timers s" and m: "tm \<in> set (timers s)"
    and c: "cb tm = MouseInactive"
    by (simp_all add: pointing_def)
  have "\<not> isUsingMouse (tick cfg s)"
  proof (rule tick_fires [where tm = tm
        and Pre = "\<lambda>x. inv_timers x \<and> tm \<in> set (timers x) \<and> due tm \<le> now x"])
    show "inv_timers (s\<lparr>now := now s + 1\<rparr>) \<and> tm \<in> set (timers (s\<lparr>now := now s + 1\<rparr>))
        \<and> due tm \<le> now (s\<lparr>now := now s + 1\<rparr>)"
      using it m assms(2) by simp
  next
    fix t and x :: state
    assume "inv_timers x \<and> tm \<in> set (timers x) \<and> due tm \<le> now x"
      and "t \<in> set (timers x)" and "t \<noteq> tm"
    then show "inv_timers (fire cfg t x) \<and> tm \<in> set (timers (fire cfg t x))
        \<and> due tm \<le> now (fire cfg t x)"
      using c by (simp add: inv_timers_fire fire_keeps_other)
  next
    fix x :: state assume "inv_timers x \<and> tm \<in> set (timers x) \<and> due tm \<le> now x"
    then show "tm \<in> set (timers x) \<and> due tm \<le> now x" by simp
  next
    fix x :: state assume "inv_timers x \<and> tm \<in> set (timers x) \<and> due tm \<le> now x"
    show "\<not> isUsingMouse (fire cfg tm x)" using c by (simp add: fire_MouseInactive)
  next
    fix t and x :: state assume "\<not> isUsingMouse x"
    then show "\<not> isUsingMouse (fire cfg t x)" by (rule fire_mouse_off)
  qed
  then show ?thesis by (simp add: step_def)
qed

lemma pointing_window:
  "pointing cfg p tm s \<Longrightarrow> now s < due tm \<Longrightarrow> \<forall>e \<in> set es. \<not> isPointerOrToggle e \<Longrightarrow>
     (isUsingMouse (run cfg es s) \<longleftrightarrow> now s + count_list es Tick < due tm)
     \<and> (now s + count_list es Tick < due tm \<longrightarrow> pointing cfg p tm (run cfg es s))"
proof (induction es arbitrary: s)
  case Nil
  then show ?case by (simp add: pointing_def)
next
  case (Cons e es)
  show ?case
  proof (cases "e = Tick")
    case True
    show ?thesis
    proof (cases "now s + 1 < due tm")
      case lt: True
      have p': "pointing cfg p tm (step cfg Tick s)"
        using Cons.prems(1) lt by (rule pointing_tick_before)
      have n': "now (step cfg Tick s) = now s + 1" by (simp add: step_def)
      from Cons.IH [OF p'] lt n' Cons.prems(3) True show ?thesis by simp
    next
      case False
      with Cons.prems(2) have eq: "now s + 1 = due tm" by simp
      have off: "\<not> isUsingMouse (step cfg Tick s)"
        using Cons.prems(1) eq by (rule pointing_tick_due)
      have "\<forall>e \<in> set es. \<not> isMouseMove e"
      proof
        fix x assume "x \<in> set es"
        with Cons.prems(3) have "\<not> isPointerOrToggle x" by simp
        then show "\<not> isMouseMove x" by (cases x) simp_all
      qed
      from not_mouse_run [OF off this] eq True show ?thesis by simp
    qed
  next
    case False
    from Cons.prems(3) have ne: "\<not> isPointerOrToggle e" by simp
    from pointing_step [OF Cons.prems(1) ne False]
    have p': "pointing cfg p tm (step cfg e s)" and n': "now (step cfg e s) = now s" by simp_all
    from Cons.IH [OF p'] n' Cons.prems(2,3) False show ?thesis by simp
  qed
qed


lemma pointing_after_move:
  assumes it: "inv_timers s" and im: "inv_mouse cfg s" and ml: "mouseListener s"
  shows "pointing cfg p \<lparr>tid = nextTimer s, due = now s + 5000, cb = MouseInactive\<rparr>
           (step cfg (MouseMove p) s)
         \<and> now (step cfg (MouseMove p) s) = now s"
proof -
  have v: "variant cfg = Part002"
    using im ml by (cases "variant cfg") (simp_all add: inv_mouse_def)
  have "inv_timers (step cfg (MouseMove p) s)" using it by (rule inv_timers_step)
  with v ml show ?thesis
    by (simp add: pointing_def step_def commit_def handleMouseMove_eq)
qed

lemma gazePosition_dwellTransition [simp]:
  "gazePosition (dwellTransition cfg b s) = gazePosition s"
  by (simp add: dwellTransition_def startDwell_eq stopDwell_eq split: option.splits)

text \<open>
  Claim C5, as the code has it. A mouse movement handled in a reachable state sets the
  mouse flag and records the point as the reported position. From then on, as long as
  neither a further movement nor a change of \<^verbatim>\<open>enabled\<close> occurs, the flag is set exactly
  while fewer than 5000 ms have passed. And in a run without any mouse movement the flag
  is never set.
\<close>

theorem pointer_window:
  assumes "s = run cfg pre (mount cfg d b)" and "mouseListener s"
    and "\<forall>e \<in> set es. \<not> isPointerOrToggle e"
  shows "isUsingMouse (step cfg (MouseMove p) s)
         \<and> gazePosition (step cfg (MouseMove p) s) = Some p
         \<and> (isUsingMouse (run cfg es (step cfg (MouseMove p) s)) \<longleftrightarrow> count_list es Tick < 5000)
         \<and> ((\<forall>e \<in> set pre. \<not> isMouseMove e) \<longrightarrow> \<not> isUsingMouse s)"
proof -
  define tm where "tm = \<lparr>tid = nextTimer s, due = now s + 5000, cb = MouseInactive\<rparr>"
  have it: "inv_timers s" and im: "inv_mouse cfg s"
    using assms(1) inv_reachable by simp_all
  from pointing_after_move [OF it im assms(2), of p]
  have pt: "pointing cfg p tm (step cfg (MouseMove p) s)"
    and n: "now (step cfg (MouseMove p) s) = now s"
    by (simp_all add: tm_def)
  have d: "due tm = now s + 5000" by (simp add: tm_def)
  have "now (step cfg (MouseMove p) s) < due tm" using n d by simp
  from pointing_window [OF pt this assms(3)] n d
  have w: "isUsingMouse (run cfg es (step cfg (MouseMove p) s)) \<longleftrightarrow> count_list es Tick < 5000"
    by simp
  have "(\<forall>e \<in> set pre. \<not> isMouseMove e) \<longrightarrow> \<not> isUsingMouse s"
    using not_mouse_run [OF not_mouse_mount] assms(1) by blast
  with pt w show ?thesis by (simp add: pointing_def)
qed

theorem pointer_window_witness:
  "mouseListener ex_enabled
   \<and> isUsingMouse (step ex_cfg (MouseMove (10, 10)) ex_enabled)
   \<and> gazePosition (step ex_cfg (MouseMove (10, 10)) ex_enabled) = Some (10, 10)
   \<and> isUsingMouse (run ex_cfg [Tick, Gaze (Some (10, 10)), Tick]
        (step ex_cfg (MouseMove (10, 10)) ex_enabled))
   \<and> \<not> isUsingMouse ex_enabled"
proof -
  have ml: "mouseListener ex_enabled" by code_simp
  have r: "ex_enabled = run ex_cfg ex_started (mount ex_cfg ex_dom False)"
    by (simp only: ex_enabled_def)
  have es: "\<forall>e \<in> set [Tick, Gaze (Some (10, 10)), Tick]. \<not> isPointerOrToggle e" by simp
  have pre: "\<forall>e \<in> set ex_started. \<not> isMouseMove e" by (simp add: ex_started_def)
  have c: "count_list [Tick, Gaze (Some (10, 10)), Tick] Tick < 5000" by simp
  from pointer_window [OF r ml es, of "(10, 10)"] ml pre c show ?thesis by blast
qed

text \<open>
  Claim C5 as worded fails. The mouse moves at time 0 and the flag is set; one
  millisecond later the hook is disabled and enabled again: the hook is enabled, the last
  movement is 1 ms old, and the flag is not set.
\<close>

theorem pointer_window_counterexample:
  "isUsingMouse (run ex_cfg [MouseMove (10, 10)] ex_enabled)
   \<and> now (run ex_cfg [MouseMove (10, 10)] ex_enabled) = 0
   \<and> enabled (run ex_cfg [MouseMove (10, 10), Tick, SetEnabled False, SetEnabled True] ex_enabled)
   \<and> now (run ex_cfg [MouseMove (10, 10), Tick, SetEnabled False, SetEnabled True] ex_enabled) = 1
   \<and> \<not> isUsingMouse
        (run ex_cfg [MouseMove (10, 10), Tick, SetEnabled False, SetEnabled True] ex_enabled)"
  by code_simp

text \<open>
  Claim C7. After a mouse movement at \<open>p\<close>, while the mouse is in use (fewer than 5000 ms
  and neither a further movement nor a change of \<^verbatim>\<open>enabled\<close>), a gaze sample \<open>q\<close> runs
  the dwell transition on the target resolved at \<open>p\<close> and the reported position stays
  \<open>p\<close>. In a reachable state where the mouse is not in use, the sample becomes the
  reported position and the transition runs on the target resolved at \<open>q\<close>.
\<close>

theorem gaze_sample_by_source:
  assumes "s = run cfg pre (mount cfg d b)"
  shows "(mouseListener s \<and> (\<forall>e \<in> set es. \<not> isPointerOrToggle e) \<and> count_list es Tick < 5000
          \<and> gazeListenerSet (run cfg es (step cfg (MouseMove p) s)) \<longrightarrow>
            isUsingMouse (run cfg es (step cfg (MouseMove p) s))
            \<and> step cfg (Gaze (Some q)) (run cfg es (step cfg (MouseMove p) s))
              = commit cfg (dwellTransition cfg
                  (findButton (document (run cfg es (step cfg (MouseMove p) s))) (fst p) (snd p))
                  (run cfg es (step cfg (MouseMove p) s)))
            \<and> gazePosition (step cfg (Gaze (Some q)) (run cfg es (step cfg (MouseMove p) s)))
              = Some p)
         \<and> (\<not> isUsingMouse s \<and> gazeListenerSet s \<longrightarrow>
              step cfg (Gaze (Some q)) s
              = commit cfg (dwellTransition cfg (findButton (document s) (fst q) (snd q))
                  (s\<lparr>gazePosition := Some q\<rparr>))
              \<and> gazePosition (step cfg (Gaze (Some q)) s) = Some q)"
proof -
  have it: "inv_timers s" and im: "inv_mouse cfg s"
    using assms(1) inv_reachable by simp_all
  let ?s1 = "run cfg es (step cfg (MouseMove p) s)"
  have first: "isUsingMouse ?s1
      \<and> step cfg (Gaze (Some q)) ?s1
        = commit cfg (dwellTransition cfg (findButton (document ?s1) (fst p) (snd p)) ?s1)
      \<and> gazePosition (step cfg (Gaze (Some q)) ?s1) = Some p"
    if ml: "mouseListener s" and es: "\<forall>e \<in> set es. \<not> isPointerOrToggle e"
      and c: "count_list es Tick < 5000" and gl: "gazeListenerSet ?s1"
  proof -
    define tm where "tm = \<lparr>tid = nextTimer s, due = now s + 5000, cb = MouseInactive\<rparr>"
    from pointing_after_move [OF it im ml, of p]
    have pt: "pointing cfg p tm (step cfg (MouseMove p) s)"
      and n: "now (step cfg (MouseMove p) s) = now s"
      by (simp_all add: tm_def)
    have d: "due tm = now s + 5000" by (simp add: tm_def)
    have "now (step cfg (MouseMove p) s) < due tm" using n d by simp
    from pointing_window [OF pt this es] n d c
    have p1: "pointing cfg p tm ?s1" by simp
    then have f: "variant cfg = Part002" "isUsingMouseRef ?s1" "isUsingMouse ?s1"
      "latestGazePositionRef ?s1 = Some p" "gazePosition ?s1 = Some p"
      by (simp_all add: pointing_def)
    have "step cfg (Gaze (Some q)) ?s1
        = commit cfg (dwellTransition cfg (findButton (document ?s1) (fst p) (snd p)) ?s1)"
      using gl f by (simp add: step_def gazeListener_def currentPoint_def Let_def)
    moreover from this have "gazePosition (step cfg (Gaze (Some q)) ?s1) = Some p"
      using f by simp
    ultimately show ?thesis using f by simp
  qed
  have second: "step cfg (Gaze (Some q)) s
        = commit cfg (dwellTransition cfg (findButton (document s) (fst q) (snd q))
            (s\<lparr>gazePosition := Some q\<rparr>))
      \<and> gazePosition (step cfg (Gaze (Some q)) s) = Some q"
    if nm: "\<not> isUsingMouse s" and gl: "gazeListenerSet s"
  proof -
    from im nm have "\<not> isUsingMouseRef s" by (simp add: inv_mouse_def)
    with gl show ?thesis
      by (simp add: step_def gazeListener_def currentPoint_def Let_def)
  qed
  from first second show ?thesis by blast
qed

theorem gaze_sample_by_source_witness:
  "mouseListener ex_enabled \<and> \<not> isUsingMouse ex_enabled \<and> gazeListenerSet ex_enabled
   \<and> gazeListenerSet (run ex_cfg [Tick] (step ex_cfg (MouseMove (10, 10)) ex_enabled))
   \<and> gazePosition (step ex_cfg (Gaze (Some (500, 500)))
        (run ex_cfg [Tick] (step ex_cfg (MouseMove (10, 10)) ex_enabled))) = Some (10, 10)
   \<and> gazePosition (step ex_cfg (Gaze (Some (500, 500))) ex_enabled) = Some (500, 500)"
proof -
  have ml: "mouseListener ex_enabled" and nm: "\<not> isUsingMouse ex_enabled"
    and gl: "gazeListenerSet ex_enabled"
    and gl1: "gazeListenerSet (run ex_cfg [Tick] (step ex_cfg (MouseMove (10, 10)) ex_enabled))"
    by code_simp+
  have r: "ex_enabled = run ex_cfg ex_started (mount ex_cfg ex_dom False)"
    by (simp only: ex_enabled_def)
  have es: "\<forall>e \<in> set [Tick]. \<not> isPointerOrToggle e" by simp
  have c: "count_list [Tick] Tick < 5000" by simp
  note th = gaze_sample_by_source [OF r, of "[Tick]" "(10, 10)" "(500, 500)"]
  have h1: "mouseListener ex_enabled \<and> (\<forall>e \<in> set [Tick]. \<not> isPointerOrToggle e)
      \<and> count_list [Tick] Tick < 5000
      \<and> gazeListenerSet (run ex_cfg [Tick] (step ex_cfg (MouseMove (10, 10)) ex_enabled))"
    using ml es c gl1 by (intro conjI)
  have h2: "\<not> isUsingMouse ex_enabled \<and> gazeListenerSet ex_enabled"
    using nm gl by (intro conjI)
  from mp [OF th [THEN conjunct1] h1]
  have a: "gazePosition (step ex_cfg (Gaze (Some (500, 500)))
        (run ex_cfg [Tick] (step ex_cfg (MouseMove (10, 10)) ex_enabled))) = Some (10, 10)"
    by (rule conjunct2 [OF conjunct2])
  from mp [OF th [THEN conjunct2] h2]
  have b: "gazePosition (step ex_cfg (Gaze (Some (500, 500))) ex_enabled) = Some (500, 500)"
    by (rule conjunct2)
  from ml nm gl gl1 a b show ?thesis by (intro conjI)
qed

section \<open>The dwell\<close>

lemma dwell_timer_refs:
  assumes "inv_timers s" and "t \<in> set (timers s)" and "isDwell (cb t)"
  shows "Some (tid t) = dwellTimerRef s" and "Some (tid t) \<noteq> progressIntervalRef s"
    and "Some (tid t) \<noteq> mouseInactivityTimerRef s"
  using ref_kind [OF assms(1,2)] assms(3) by (cases "cb t"; auto)+

lemma fire_not_dwell:
  "\<not> isDwell (cb t) \<Longrightarrow>
     calls (fire cfg t s) = calls s \<and> hoveredElement (fire cfg t s) = hoveredElement s
     \<and> currentHoveredRef (fire cfg t s) = currentHoveredRef s"
  by (cases "cb t") (simp_all add: fire_ProgressTick fire_MouseInactive fire_InitDone)

lemma only_dwell_timer:
  assumes it: "inv_timers s" and tm: "tm \<in> set (timers s)" and c: "isDwell (cb tm)"
    and t: "t \<in> set (timers s)" and ne: "t \<noteq> tm"
  shows "\<not> isDwell (cb t)"
proof
  assume "isDwell (cb t)"
  from dwell_timer_refs(1) [OF it t this] dwell_timer_refs(1) [OF it tm c]
  have "Some (tid t) = Some (tid tm)" by (rule trans [OF _ sym])
  then have "t = tm" using same_tid [OF it t tm] by simp
  with ne show False by simp
qed

lemma dwelling_step:
  assumes dw: "dwelling b T tm c s" and st: "steadyEvent cfg T e s" and nt: "e \<noteq> Tick"
  shows "dwelling b T tm c (step cfg e s) \<and> now (step cfg e s) = now s"
proof -
  have it: "inv_timers (step cfg e s)"
    using dw by (simp add: dwelling_def inv_timers_step)
  have v: "inv_timers s" "tm \<in> set (timers s)" "cb tm = DwellComplete b T"
    "currentHoveredRef s = Some T" "hoveredElement s = Some T" "calls s = c"
    using dw by (simp_all add: dwelling_def)
  have d: "isDwell (cb tm)" using v(3) by simp
  have rest: "tm \<in> set (timers (step cfg e s)) \<and> currentHoveredRef (step cfg e s) = Some T
      \<and> hoveredElement (step cfg e s) = Some T \<and> calls (step cfg e s) = c
      \<and> now (step cfg e s) = now s"
  proof (cases e)
    case (SetEnabled b')
    with st v show ?thesis by (simp add: step_def setEnabled_def)
  next
    case (MouseMove p)
    with v dwell_timer_refs(3) [OF v(1,2) d] show ?thesis
      by (simp add: step_def handleMouseMove_eq)
  next
    case (Gaze data)
    show ?thesis
    proof (cases data)
      case None
      with Gaze v show ?thesis by (simp add: step_def gazeListener_def)
    next
      case (Some xy)
      with Gaze st have "resolvedId cfg s xy = Some T" by simp
      then obtain el where el: "findButton (document s) (fst (currentPoint cfg s xy))
            (snd (currentPoint cfg s xy)) = Some el" "dataSymbolId el = Some T"
        by (auto simp add: resolvedId_def split: option.splits)
      with Gaze Some v show ?thesis
        by (simp add: step_def gazeListener_def Let_def dwellTransition_def)
    qed
  next
    case BeginResolved
    with v show ?thesis by (simp add: step_def beginThen_def setTimer_def)
  next
    case ScriptLoaded
    with v show ?thesis by (simp add: step_def scriptOnload_def)
  next
    case ScriptError
    with v show ?thesis by (simp add: step_def)
  next
    case BeginRejected
    with v show ?thesis by (simp add: step_def)
  next
    case (DomUpdate d)
    with v show ?thesis by (simp add: step_def)
  next
    case Tick
    with nt show ?thesis by simp
  qed
  with it v show ?thesis by (simp add: dwelling_def)
qed

lemma dwelling_tick_before:
  assumes dw: "dwelling b T tm c s" and lt: "now s + 1 < due tm"
  shows "dwelling b T tm c (step cfg Tick s)"
proof -
  have v: "inv_timers s" "tm \<in> set (timers s)" "cb tm = DwellComplete b T"
    "currentHoveredRef s = Some T" "hoveredElement s = Some T" "calls s = c"
    using dw by (simp_all add: dwelling_def)
  have d: "isDwell (cb tm)" using v(3) by simp
  have np: "cb tm \<noteq> ProgressTick" using v(3) by simp
  let ?s1 = "s\<lparr>now := now s + 1\<rparr>"
  have "inv_timers (runDue cfg (timers ?s1) ?s1) \<and> tm \<in> set (timers (runDue cfg (timers ?s1) ?s1))
        \<and> now (runDue cfg (timers ?s1) ?s1) = now ?s1
        \<and> currentHoveredRef (runDue cfg (timers ?s1) ?s1) = Some T
        \<and> hoveredElement (runDue cfg (timers ?s1) ?s1) = Some T
        \<and> calls (runDue cfg (timers ?s1) ?s1) = c"
  proof (rule runDue_rule)
    show "inv_timers ?s1 \<and> tm \<in> set (timers ?s1) \<and> now ?s1 = now ?s1
        \<and> currentHoveredRef ?s1 = Some T \<and> hoveredElement ?s1 = Some T \<and> calls ?s1 = c"
      using v by simp
  next
    fix t and x :: state
    assume p: "inv_timers x \<and> tm \<in> set (timers x) \<and> now x = now ?s1
        \<and> currentHoveredRef x = Some T \<and> hoveredElement x = Some T \<and> calls x = c"
      and t: "t \<in> set (timers x)" and du: "due t \<le> now x"
    then have ne: "t \<noteq> tm" using lt by auto
    from p have itx: "inv_timers x" and mx: "tm \<in> set (timers x)" by simp_all
    have nd: "\<not> isDwell (cb t)" by (rule only_dwell_timer [OF itx mx d t ne])
    from p t ne np fire_not_dwell [OF nd, of cfg x]
    show "inv_timers (fire cfg t x) \<and> tm \<in> set (timers (fire cfg t x))
        \<and> now (fire cfg t x) = now ?s1
        \<and> currentHoveredRef (fire cfg t x) = Some T \<and> hoveredElement (fire cfg t x) = Some T
        \<and> calls (fire cfg t x) = c"
      by (simp add: inv_timers_fire fire_keeps_other)
  qed
  then have "inv_timers (tick cfg s) \<and> tm \<in> set (timers (tick cfg s))
      \<and> currentHoveredRef (tick cfg s) = Some T \<and> hoveredElement (tick cfg s) = Some T
      \<and> calls (tick cfg s) = c"
    by (simp add: tick_def Let_def)
  with v(3) show ?thesis
    by (simp add: dwelling_def step_def)
qed


lemma dwelling_tick_due:
  assumes dw: "dwelling b T tm c s" and eq: "now s + 1 = due tm"
  shows "calls (step cfg Tick s)
           = c @ (if clickThrows (document s) b then [ClickThrew b, DispatchClick b]
                  else [ClickOk b])
         \<and> currentHoveredRef (step cfg Tick s) = None
         \<and> hoveredElement (step cfg Tick s) = None
         \<and> dwellProgress (step cfg Tick s) = 0
         \<and> noDwell (step cfg Tick s)"
proof -
  have v: "inv_timers s" "tm \<in> set (timers s)" "cb tm = DwellComplete b T" "calls s = c"
    using dw by (simp_all add: dwelling_def)
  have d: "isDwell (cb tm)" using v(3) by simp
  have np: "cb tm \<noteq> ProgressTick" using v(3) by simp
  let ?c' = "c @ (if clickThrows (document s) b then [ClickThrew b, DispatchClick b]
                  else [ClickOk b])"
  let ?Post = "\<lambda>x. calls x = ?c' \<and> currentHoveredRef x = None \<and> hoveredElement x = None
      \<and> dwellProgress x = 0 \<and> noDwell x"
  have "?Post (tick cfg s)"
  proof (rule tick_fires [where tm = tm
        and Pre = "\<lambda>x. inv_timers x \<and> tm \<in> set (timers x) \<and> due tm \<le> now x
                    \<and> calls x = c \<and> document x = document s"])
    show "inv_timers (s\<lparr>now := now s + 1\<rparr>) \<and> tm \<in> set (timers (s\<lparr>now := now s + 1\<rparr>))
        \<and> due tm \<le> now (s\<lparr>now := now s + 1\<rparr>) \<and> calls (s\<lparr>now := now s + 1\<rparr>) = c
        \<and> document (s\<lparr>now := now s + 1\<rparr>) = document s"
      using v eq by simp
  next
    fix t and x :: state
    assume p: "inv_timers x \<and> tm \<in> set (timers x) \<and> due tm \<le> now x \<and> calls x = c
        \<and> document x = document s"
      and t: "t \<in> set (timers x)" and ne: "t \<noteq> tm"
    from p have itx: "inv_timers x" and mx: "tm \<in> set (timers x)" by simp_all
    have nd: "\<not> isDwell (cb t)" by (rule only_dwell_timer [OF itx mx d t ne])
    have "document (fire cfg t x) = document x"
      using fire_frame [of cfg t x] by (simp add: timerFrame_def)
    with p t ne np fire_not_dwell [OF nd, of cfg x]
    show "inv_timers (fire cfg t x) \<and> tm \<in> set (timers (fire cfg t x))
        \<and> due tm \<le> now (fire cfg t x) \<and> calls (fire cfg t x) = c
        \<and> document (fire cfg t x) = document s"
      by (simp add: inv_timers_fire fire_keeps_other)
  next
    fix x :: state
    assume "inv_timers x \<and> tm \<in> set (timers x) \<and> due tm \<le> now x \<and> calls x = c
        \<and> document x = document s"
    then show "tm \<in> set (timers x) \<and> due tm \<le> now x" by simp
  next
    fix x :: state
    assume p: "inv_timers x \<and> tm \<in> set (timers x) \<and> due tm \<le> now x \<and> calls x = c
        \<and> document x = document s"
    then have itx: "inv_timers x" and mx: "tm \<in> set (timers x)" by simp_all
    have "\<not> isDwell (cb u) \<and> cb u \<noteq> ProgressTick"
      if u: "u \<in> set (timers x)" and f: "tid u \<noteq> tid tm"
        and g: "Some (tid u) \<noteq> progressIntervalRef x" for u
    proof
      from f have "u \<noteq> tm" by auto
      then show "\<not> isDwell (cb u)" by (rule only_dwell_timer [OF itx mx d u])
      show "cb u \<noteq> ProgressTick" using ref_kind(2) [OF itx u] g by auto
    qed
    then have "noDwell (fire cfg tm x)"
      by (simp add: noDwell_def fire_DwellComplete [OF v(3)])
    with p show "?Post (fire cfg tm x)"
      by (simp add: fire_DwellComplete [OF v(3)])
  next
    fix t and x :: state
    assume "?Post x" and "t \<in> set (timers x)"
    then show "?Post (fire cfg t x)" using fire_quiet [of x t cfg] by simp
  qed
  then show ?thesis by (simp add: step_def)
qed

lemma dwell_stream:
  "dwelling b T tm c s \<Longrightarrow> steady cfg T es s \<Longrightarrow> now s + count_list es Tick < due tm \<Longrightarrow>
     dwelling b T tm c (run cfg es s) \<and> now (run cfg es s) = now s + count_list es Tick"
proof (induction es arbitrary: s)
  case Nil
  then show ?case by simp
next
  case (Cons e es)
  show ?case
  proof (cases "e = Tick")
    case True
    have lt: "now s + 1 < due tm" using Cons.prems(3) True by simp
    have d': "dwelling b T tm c (step cfg Tick s)"
      using Cons.prems(1) lt by (rule dwelling_tick_before)
    have n': "now (step cfg Tick s) = now s + 1" by (simp add: step_def)
    from Cons.IH [OF d'] Cons.prems(2,3) n' True show ?thesis by simp
  next
    case False
    from Cons.prems(2) have se: "steadyEvent cfg T e s" by simp
    from dwelling_step [OF Cons.prems(1) se False]
    have d': "dwelling b T tm c (step cfg e s)" and n': "now (step cfg e s) = now s"
      by simp_all
    from Cons.IH [OF d'] Cons.prems(2,3) n' False show ?thesis by simp
  qed
qed

lemma dwell_start:
  assumes it: "inv_timers s" and gl: "gazeListenerSet s"
    and fb: "findButton (document s) (fst (currentPoint cfg s p)) (snd (currentPoint cfg s p))
              = Some b"
    and id: "dataSymbolId b = Some T" and ne: "T \<noteq> []" and nh: "currentHoveredRef s \<noteq> Some T"
  shows "dwelling b T \<lparr>tid = nextTimer s + 1, due = now s + dwellTime cfg,
                       cb = DwellComplete b T\<rparr> (calls s) (step cfg (Gaze (Some p)) s)
         \<and> now (step cfg (Gaze (Some p)) s) = now s"
proof -
  have "inv_timers (step cfg (Gaze (Some p)) s)" using it by (rule inv_timers_step)
  moreover have "step cfg (Gaze (Some p)) s
      = commit cfg (startDwell cfg b T
          (if variant cfg = Part002 \<and> isUsingMouseRef s then s else s\<lparr>gazePosition := Some p\<rparr>))"
    using gl fb id ne nh
    by (simp add: step_def gazeListener_def Let_def dwellTransition_def)
  ultimately show ?thesis
    by (simp add: dwelling_def startDwell_eq)
qed

text \<open>The whole of a dwell: from the first sample on \<open>T\<close> to the tick of the timeout.\<close>

lemma dwell_completes:
  assumes r: "s = run cfg pre (mount cfg d b0)" and gl: "gazeListenerSet s"
    and fb: "findButton (document s) (fst (currentPoint cfg s p)) (snd (currentPoint cfg s p))
              = Some b"
    and id: "dataSymbolId b = Some T" and ne: "T \<noteq> []" and nh: "currentHoveredRef s \<noteq> Some T"
    and st: "steady cfg T es (step cfg (Gaze (Some p)) s)"
    and n: "count_list es Tick + 1 = dwellTime cfg"
  shows "calls (run cfg es (step cfg (Gaze (Some p)) s)) = calls s
    \<and> hoveredElement (run cfg es (step cfg (Gaze (Some p)) s)) = Some T
    \<and> calls (run cfg (es @ [Tick]) (step cfg (Gaze (Some p)) s))
        = calls s @ (if clickThrows (document (run cfg es (step cfg (Gaze (Some p)) s))) b
                     then [ClickThrew b, DispatchClick b] else [ClickOk b])
    \<and> hoveredElement (run cfg (es @ [Tick]) (step cfg (Gaze (Some p)) s)) = None
    \<and> currentHoveredRef (run cfg (es @ [Tick]) (step cfg (Gaze (Some p)) s)) = None
    \<and> dwellProgress (run cfg (es @ [Tick]) (step cfg (Gaze (Some p)) s)) = 0
    \<and> noDwell (run cfg (es @ [Tick]) (step cfg (Gaze (Some p)) s))
    \<and> (\<forall>k. calls (run cfg (es @ Tick # replicate k Tick) (step cfg (Gaze (Some p)) s))
            = calls (run cfg (es @ [Tick]) (step cfg (Gaze (Some p)) s)))"
proof -
  define tm where "tm = \<lparr>tid = nextTimer s + 1, due = now s + dwellTime cfg,
                          cb = DwellComplete b T\<rparr>"
  let ?s1 = "step cfg (Gaze (Some p)) s"
  let ?s2 = "run cfg es ?s1"
  let ?s3 = "step cfg Tick ?s2"
  have it: "inv_timers s" using r inv_reachable by simp
  from dwell_start [OF it gl fb id ne nh]
  have d1: "dwelling b T tm (calls s) ?s1" and n1: "now ?s1 = now s"
    by (simp_all add: tm_def)
  have du: "due tm = now s + dwellTime cfg" by (simp add: tm_def)
  have "now ?s1 + count_list es Tick < due tm" using n1 du n by simp
  from dwell_stream [OF d1 st this]
  have d2: "dwelling b T tm (calls s) ?s2" and n2: "now ?s2 = now s + count_list es Tick"
    using n1 by simp_all
  have "now ?s2 + 1 = due tm" using n2 du n by simp
  from dwelling_tick_due [OF d2 this, of cfg]
  have f: "calls ?s3 = calls s @ (if clickThrows (document ?s2) b
                     then [ClickThrew b, DispatchClick b] else [ClickOk b])"
    "currentHoveredRef ?s3 = None" "hoveredElement ?s3 = None" "dwellProgress ?s3 = 0"
    "noDwell ?s3"
    by simp_all
  have e3: "run cfg (es @ [Tick]) ?s1 = ?s3" by (simp add: run_append)
  have ek: "run cfg (es @ Tick # replicate k Tick) ?s1 = run cfg (replicate k Tick) ?s3" for k
    by (simp add: run_append)
  have "calls (run cfg (replicate k Tick) ?s3) = calls ?s3" for k
    using ticks_quiet [OF f(5), of cfg k] by simp
  with d2 f e3 ek show ?thesis by (simp add: dwelling_def)
qed


lemma activations_append [simp]: "activations (xs @ ys) = activations xs @ activations ys"
  by (simp add: activations_def)

text \<open>
  Claim C1. In a reachable state that is not already dwelling on \<open>T\<close>, let a gaze sample
  resolve to an element \<open>b\<close> with the non-empty id \<open>T\<close>, and let the stream that follows stay
  on \<open>T\<close> (any number of samples, all resolving to \<open>T\<close>) for \<^verbatim>\<open>dwellTime\<close> - 1 ticks.
  Then no click has happened and \<open>T\<close> is still hovered; the next tick, at which the dwell
  time has elapsed, delivers exactly one click to \<open>b\<close>, and after it the hovered target
  is null and the progress is 0; and no further tick adds any click.
\<close>

theorem dwell_fires_once:
  assumes "s = run cfg pre (mount cfg d b0)" and "gazeListenerSet s"
    and "findButton (document s) (fst (currentPoint cfg s p)) (snd (currentPoint cfg s p))
          = Some b"
    and "dataSymbolId b = Some T" and "T \<noteq> []" and "currentHoveredRef s \<noteq> Some T"
    and "steady cfg T es (step cfg (Gaze (Some p)) s)"
    and "count_list es Tick + 1 = dwellTime cfg"
  shows "calls (run cfg es (step cfg (Gaze (Some p)) s)) = calls s
    \<and> hoveredElement (run cfg es (step cfg (Gaze (Some p)) s)) = Some T
    \<and> activations (calls (run cfg (es @ [Tick]) (step cfg (Gaze (Some p)) s)))
        = activations (calls s) @ [b]
    \<and> hoveredElement (run cfg (es @ [Tick]) (step cfg (Gaze (Some p)) s)) = None
    \<and> currentHoveredRef (run cfg (es @ [Tick]) (step cfg (Gaze (Some p)) s)) = None
    \<and> dwellProgress (run cfg (es @ [Tick]) (step cfg (Gaze (Some p)) s)) = 0
    \<and> (\<forall>k. calls (run cfg (es @ Tick # replicate k Tick) (step cfg (Gaze (Some p)) s))
            = calls (run cfg (es @ [Tick]) (step cfg (Gaze (Some p)) s)))"
proof -
  note c = dwell_completes [OF assms]
  have "activations (calls (run cfg (es @ [Tick]) (step cfg (Gaze (Some p)) s)))
        = activations (calls s) @ [b]"
    using c by (simp add: activations_def)
  with c show ?thesis by simp
qed

theorem dwell_fires_once_witness:
  "gazeListenerSet ex_hooks_running
   \<and> steady ex_hooks ''apple'' ex_stream (step ex_hooks (Gaze (Some (10, 10))) ex_hooks_running)
   \<and> count_list ex_stream Tick + 1 = dwellTime ex_hooks
   \<and> activations (calls (run ex_hooks (ex_stream @ [Tick])
        (step ex_hooks (Gaze (Some (10, 10))) ex_hooks_running))) = [ex_apple]
   \<and> hoveredElement (run ex_hooks (ex_stream @ [Tick])
        (step ex_hooks (Gaze (Some (10, 10))) ex_hooks_running)) = None"
proof -
  have r: "ex_hooks_running = run ex_hooks ex_started (mount ex_hooks ex_dom False)"
    by (simp only: ex_hooks_running_def)
  have gl: "gazeListenerSet ex_hooks_running" by code_simp
  have fb: "findButton (document ex_hooks_running)
      (fst (currentPoint ex_hooks ex_hooks_running (10, 10)))
      (snd (currentPoint ex_hooks ex_hooks_running (10, 10))) = Some ex_apple"
    by code_simp
  have id: "dataSymbolId ex_apple = Some ''apple''" by (simp add: ex_apple_def)
  have ne: "''apple'' \<noteq> []" by simp
  have nh: "currentHoveredRef ex_hooks_running \<noteq> Some ''apple''" by code_simp
  have st: "steady ex_hooks ''apple'' ex_stream
      (step ex_hooks (Gaze (Some (10, 10))) ex_hooks_running)"
    by code_simp
  have n: "count_list ex_stream Tick + 1 = dwellTime ex_hooks"
    by (simp add: ex_stream_def ex_hooks_def)
  have c0: "calls ex_hooks_running = []" by code_simp
  from dwell_fires_once [OF r gl fb id ne nh st n] gl st n c0 show ?thesis
    by (simp add: activations_def)
qed

text \<open>
  Claim C9, as the code has it. When the timeout of a dwell runs and \<^verbatim>\<open>click()\<close> throws,
  the error is caught and the click is tried once more as a dispatched mouse event on the
  same element; then the hovered target is null and the progress 0, no dwell timer or
  progress interval is pending, and no later tick adds a call. No handler of the model
  has an error result: nothing is propagated.
\<close>

theorem click_failure_falls_back:
  assumes "s = run cfg pre (mount cfg d b0)" and "gazeListenerSet s"
    and "findButton (document s) (fst (currentPoint cfg s p)) (snd (currentPoint cfg s p))
          = Some b"
    and "dataSymbolId b = Some T" and "T \<noteq> []" and "currentHoveredRef s \<noteq> Some T"
    and "steady cfg T es (step cfg (Gaze (Some p)) s)"
    and "count_list es Tick + 1 = dwellTime cfg"
    and "clickThrows (document (run cfg es (step cfg (Gaze (Some p)) s))) b"
  shows "calls (run cfg (es @ [Tick]) (step cfg (Gaze (Some p)) s))
          = calls s @ [ClickThrew b, DispatchClick b]
    \<and> hoveredElement (run cfg (es @ [Tick]) (step cfg (Gaze (Some p)) s)) = None
    \<and> currentHoveredRef (run cfg (es @ [Tick]) (step cfg (Gaze (Some p)) s)) = None
    \<and> dwellProgress (run cfg (es @ [Tick]) (step cfg (Gaze (Some p)) s)) = 0
    \<and> noDwell (run cfg (es @ [Tick]) (step cfg (Gaze (Some p)) s))
    \<and> (\<forall>k. calls (run cfg (es @ Tick # replicate k Tick) (step cfg (Gaze (Some p)) s))
            = calls s @ [ClickThrew b, DispatchClick b])"
  using dwell_completes [OF assms(1-8)] assms(9) by simp

theorem click_failure_falls_back_witness:
  "gazeListenerSet ex_throwing_running
   \<and> clickThrows (document (run ex_hooks ex_stream
        (step ex_hooks (Gaze (Some (10, 10))) ex_throwing_running))) ex_apple
   \<and> calls (run ex_hooks (ex_stream @ [Tick])
        (step ex_hooks (Gaze (Some (10, 10))) ex_throwing_running))
      = [ClickThrew ex_apple, DispatchClick ex_apple]
   \<and> hoveredElement (run ex_hooks (ex_stream @ [Tick])
        (step ex_hooks (Gaze (Some (10, 10))) ex_throwing_running)) = None"
proof -
  have r: "ex_throwing_running = run ex_hooks ex_started (mount ex_hooks ex_dom_throwing False)"
    by (simp only: ex_throwing_running_def)
  have gl: "gazeListenerSet ex_throwing_running" by code_simp
  have fb: "findButton (document ex_throwing_running)
      (fst (currentPoint ex_hooks ex_throwing_running (10, 10)))
      (snd (currentPoint ex_hooks ex_throwing_running (10, 10))) = Some ex_apple"
    by code_simp
  have id: "dataSymbolId ex_apple = Some ''apple''" by (simp add: ex_apple_def)
  have ne: "''apple'' \<noteq> []" by simp
  have nh: "currentHoveredRef ex_throwing_running \<noteq> Some ''apple''" by code_simp
  have st: "steady ex_hooks ''apple'' ex_stream
      (step ex_hooks (Gaze (Some (10, 10))) ex_throwing_running)"
    by code_simp
  have n: "count_list ex_stream Tick + 1 = dwellTime ex_hooks"
    by (simp add: ex_stream_def ex_hooks_def)
  have ct: "clickThrows (document (run ex_hooks ex_stream
        (step ex_hooks (Gaze (Some (10, 10))) ex_throwing_running))) ex_apple"
    by code_simp
  have c0: "calls ex_throwing_running = []" by code_simp
  from click_failure_falls_back [OF r gl fb id ne nh st n ct] gl ct c0 show ?thesis
    by simp
qed

text \<open>
  Claim C9 as worded fails in one point: the activation is retried. With a \<^verbatim>\<open>click()\<close>
  that throws, the timeout of the dwell makes two calls on the element, the second one
  the dispatched click.
\<close>

theorem click_failure_falls_back_counterexample:
  "calls (run ex_hooks (ex_started @ Gaze (Some (10, 10)) # ex_stream @ [Tick])
      (mount ex_hooks ex_dom_throwing False))
   = [ClickThrew ex_apple, DispatchClick ex_apple]"
  by code_simp

section \<open>The progress of a dwell\<close>

lemma noDwell_unref:
  assumes "inv_timers s"
    and "\<And>t. t \<in> set ts \<Longrightarrow> t \<in> set (timers s) \<and> Some (tid t) \<noteq> dwellTimerRef s
                 \<and> Some (tid t) \<noteq> progressIntervalRef s"
  shows "\<forall>t \<in> set ts. \<not> isDwell (cb t) \<and> cb t \<noteq> ProgressTick"
proof
  fix t assume "t \<in> set ts"
  from assms(2) [OF this] ref_kind(1,2) [OF assms(1), of t]
  show "\<not> isDwell (cb t) \<and> cb t \<noteq> ProgressTick" by auto
qed

lemma elapsedShare_start [simp]: "elapsedShare cfg n n = 0"
  by (simp add: elapsedShare_def)

lemma elapsedShare_nonneg: "a \<le> n \<Longrightarrow> 0 \<le> elapsedShare cfg n a"
  by (simp add: elapsedShare_def)

lemma elapsedShare_mono: "elapsedShare cfg n a \<le> elapsedShare cfg (Suc n) a"
  by (simp add: elapsedShare_def divide_right_mono)

lemma fire_ProgressTick_share:
  "cb t = ProgressTick \<Longrightarrow>
   dwellProgress (fire cfg t s) = min (elapsedShare cfg (now s) (dwellStartTimeRef s)) 100"
  by (simp add: fire_ProgressTick elapsedShare_def)

lemma inv_dwell_startDwell:
  "inv_dwell cfg (startDwell cfg b e s)"
  by (simp add: inv_dwell_def startDwell_eq)

lemma inv_dwell_stopDwell:
  assumes "inv_timers s"
  shows "inv_dwell cfg (stopDwell s)"
proof -
  have "\<forall>t \<in> set (filter (\<lambda>t. Some (tid t) \<noteq> dwellTimerRef s
                          \<and> Some (tid t) \<noteq> progressIntervalRef s) (timers s)).
          \<not> isDwell (cb t) \<and> cb t \<noteq> ProgressTick"
    by (rule noDwell_unref [OF assms]) simp
  then show ?thesis by (simp add: inv_dwell_def stopDwell_eq noDwell_def)
qed

lemma inv_dwell_gazePosition [simp]:
  "inv_dwell cfg (s\<lparr>gazePosition := p\<rparr>) = inv_dwell cfg s"
  by (simp add: inv_dwell_def noDwell_def)

lemma inv_dwell_gazeListener:
  assumes "inv_timers s" and "inv_dwell cfg s"
  shows "inv_dwell cfg (gazeListener cfg data s)"
  using assms
  by (simp add: gazeListener_def Let_def dwellTransition_def inv_dwell_startDwell
        inv_dwell_stopDwell inv_timers_def split: option.splits)

lemma inv_dwell_filter:
  assumes "inv_dwell cfg s" and "timers s' = filter Q (timers s) @ us"
    and "\<forall>u \<in> set us. \<not> isDwell (cb u) \<and> cb u \<noteq> ProgressTick"
    and "hoveredElement s' = hoveredElement s" and "currentHoveredRef s' = currentHoveredRef s"
    and "dwellProgress s' = dwellProgress s" and "dwellStartTimeRef s' = dwellStartTimeRef s"
    and "now s' = now s"
  shows "inv_dwell cfg s'"
  using assms by (auto simp add: inv_dwell_def noDwell_def)

lemma inv_dwell_handleMouseMove:
  "inv_dwell cfg s \<Longrightarrow> inv_dwell cfg (handleMouseMove e s)"
  by (rule inv_dwell_filter [where Q = "\<lambda>t. Some (tid t) \<noteq> mouseInactivityTimerRef s"
        and us = "[\<lparr>tid = nextTimer s, due = now s + 5000, cb = MouseInactive\<rparr>]"])
     (simp_all add: handleMouseMove_eq)

lemma inv_dwell_runCleanup:
  assumes "inv_dwell cfg s"
  shows "inv_dwell cfg (runCleanup cfg s)"
proof -
  obtain Q where Q: "timers (runCleanup cfg s) = filter Q (timers s)"
    using timers_runCleanup by blast
  have d: "dwellStartTimeRef (runCleanup cfg s) = dwellStartTimeRef s"
    by (simp add: runCleanup_def clearRef_eq Let_def split: cleanup.splits variant.splits)
  show ?thesis
    by (rule inv_dwell_filter [OF assms, where Q = Q and us = "[]"]) (simp_all add: Q d)
qed

lemma inv_dwell_setEnabled:
  assumes it: "inv_timers s" and im: "inv_mouse cfg s" and id: "inv_dwell cfg s"
  shows "inv_dwell cfg (setEnabled cfg b s)"
proof (cases "b = enabled s")
  case True
  with id show ?thesis by (simp add: setEnabled_def)
next
  case False
  show ?thesis
  proof (cases b)
    case True
    have "inv_dwell cfg ((runCleanup cfg s)\<lparr>enabled := True\<rparr>)"
      using inv_dwell_runCleanup [OF id] by (simp add: inv_dwell_def noDwell_def)
    then have "inv_dwell cfg (effectEnabled cfg ((runCleanup cfg s)\<lparr>enabled := True\<rparr>))"
      by (rule inv_dwell_filter [where Q = "\<lambda>t. True" and us = "[]"])
         (simp_all add: effectEnabled_def Let_def split: variant.splits)
    with True False show ?thesis by (simp add: setEnabled_def Let_def)
  next
    case b: False
    with False have en: "enabled s" by simp
    have "\<forall>t \<in> set (timers (setEnabled cfg False s)). cb t = InitDone"
      using disable_timers [OF it im en] by blast
    then have "noDwell (setEnabled cfg False s)" by (auto simp add: noDwell_def)
    moreover have "setEnabled cfg False s
        = effectDisabled cfg ((runCleanup cfg s)\<lparr>enabled := False\<rparr>)"
      using en by (simp add: setEnabled_def Let_def)
    ultimately show ?thesis using b by (simp add: inv_dwell_def)
  qed
qed


lemma inv_dwell_advance:
  assumes "inv_dwell cfg s"
  shows "inv_dwell cfg (s\<lparr>now := Suc (now s)\<rparr>)"
proof -
  have "dwellProgress s \<le> elapsedShare cfg (Suc (now s)) (dwellStartTimeRef s)"
    if "dwellProgress s \<le> elapsedShare cfg (now s) (dwellStartTimeRef s)"
    using that elapsedShare_mono [of cfg "now s" "dwellStartTimeRef s"] by (rule order_trans)
  with assms show ?thesis by (auto simp add: inv_dwell_def noDwell_def)
qed

lemma inv_dwell_fire:
  assumes it: "inv_timers s" and id: "inv_dwell cfg s" and t: "t \<in> set (timers s)"
  shows "inv_dwell cfg (fire cfg t s)"
proof (cases "cb t")
  case c: (DwellComplete b e)
  have d: "isDwell (cb t)" using c by simp
  have "\<not> isDwell (cb u) \<and> cb u \<noteq> ProgressTick"
    if u: "u \<in> set (timers s)" and f: "tid u \<noteq> tid t"
      and g: "Some (tid u) \<noteq> progressIntervalRef s" for u
  proof
    from f have "u \<noteq> t" by auto
    then show "\<not> isDwell (cb u)" by (rule only_dwell_timer [OF it t d u])
    show "cb u \<noteq> ProgressTick" using ref_kind(2) [OF it u] g by auto
  qed
  then show ?thesis
    by (simp add: inv_dwell_def noDwell_def fire_DwellComplete [OF c])
next
  case c: ProgressTick
  with t have "\<not> noDwell s" by (auto simp add: noDwell_def)
  with id have h: "currentHoveredRef s \<noteq> None" "dwellStartTimeRef s \<le> now s"
    "hoveredElement s = currentHoveredRef s"
    by (auto simp add: inv_dwell_def)
  have nn: "0 \<le> elapsedShare cfg (now s) (dwellStartTimeRef s)"
    using h(2) by (rule elapsedShare_nonneg)
  have f: "hoveredElement (fire cfg t s) = hoveredElement s"
    "currentHoveredRef (fire cfg t s) = currentHoveredRef s"
    "dwellStartTimeRef (fire cfg t s) = dwellStartTimeRef s" "now (fire cfg t s) = now s"
    by (simp_all add: fire_ProgressTick [OF c])
  show ?thesis
    unfolding inv_dwell_def f fire_ProgressTick_share [OF c]
    using h nn by auto
next
  case c: MouseInactive
  show ?thesis
    by (rule inv_dwell_filter [OF id, where Q = "\<lambda>u. tid u \<noteq> tid t" and us = "[]"])
       (simp_all add: fire_MouseInactive [OF c])
next
  case c: InitDone
  show ?thesis
    by (rule inv_dwell_filter [OF id, where Q = "\<lambda>u. tid u \<noteq> tid t" and us = "[]"])
       (simp_all add: fire_InitDone [OF c])
qed

lemma inv_dwell_tick:
  assumes "inv_timers s" and "inv_dwell cfg s"
  shows "inv_dwell cfg (tick cfg s)"
proof -
  have "inv_timers (runDue cfg (timers (s\<lparr>now := now s + 1\<rparr>)) (s\<lparr>now := now s + 1\<rparr>))
      \<and> inv_dwell cfg (runDue cfg (timers (s\<lparr>now := now s + 1\<rparr>)) (s\<lparr>now := now s + 1\<rparr>))"
    by (rule runDue_rule)
       (simp_all add: assms inv_dwell_advance inv_timers_fire inv_dwell_fire)
  then show ?thesis by (simp add: tick_def Let_def)
qed

lemma inv_dwell_commit [simp]: "inv_dwell cfg (commit cfg s) = inv_dwell cfg s"
  by (simp add: inv_dwell_def)

lemma inv_dwell_handle:
  assumes it: "inv_timers s" and im: "inv_mouse cfg s" and id: "inv_dwell cfg s"
  shows "inv_dwell cfg (handle cfg e s)"
proof (cases e)
  case (SetEnabled b)
  with assms show ?thesis by (simp add: inv_dwell_setEnabled)
next
  case (MouseMove p)
  with id show ?thesis by (simp add: inv_dwell_handleMouseMove)
next
  case (Gaze data)
  with it id show ?thesis by (simp add: inv_dwell_gazeListener)
next
  case ScriptLoaded
  with id show ?thesis by (simp add: scriptOnload_def inv_dwell_def noDwell_def)
next
  case ScriptError
  with id show ?thesis by (simp add: inv_dwell_def noDwell_def)
next
  case BeginResolved
  with id show ?thesis by (simp add: beginThen_def setTimer_def inv_dwell_def noDwell_def)
next
  case BeginRejected
  with id show ?thesis by (simp add: inv_dwell_def noDwell_def)
next
  case (DomUpdate d)
  with id show ?thesis by (simp add: inv_dwell_def noDwell_def)
next
  case Tick
  with it id show ?thesis by (simp add: inv_dwell_tick)
qed

lemma inv_all_run:
  "inv_timers s \<Longrightarrow> inv_mouse cfg s \<Longrightarrow> inv_dwell cfg s \<Longrightarrow> inv_dwell cfg (run cfg es s)"
proof (induction es arbitrary: s)
  case Nil
  then show ?case by simp
next
  case (Cons e es)
  have "inv_timers (step cfg e s)" "inv_mouse cfg (step cfg e s)" "inv_dwell cfg (step cfg e s)"
    using Cons.prems by (simp_all add: step_def inv_timers_handle inv_mouse_handle inv_dwell_handle)
  with Cons.IH show ?case by simp
qed

lemma inv_dwell_mount: "inv_dwell cfg (mount cfg d b)"
  by (cases "variant cfg"; cases b)
     (simp_all add: mount_def Let_def inv_dwell_def noDwell_def effectEnabled_def
        effectDisabled_def clearRef_eq initialState_def)

lemma inv_dwell_reachable: "inv_dwell cfg (run cfg es (mount cfg d b))"
  by (rule inv_all_run [OF inv_timers_mount inv_mouse_mount inv_dwell_mount])


lemma not_noDwell:
  "t \<in> set (timers x) \<Longrightarrow> isDwell (cb t) \<or> cb t = ProgressTick \<Longrightarrow> \<not> noDwell x"
  unfolding noDwell_def by blast

lemma progressed_fire:
  assumes it: "inv_timers x" and id: "inv_dwell cfg x" and pr: "progressed s x"
    and t: "t \<in> set (timers x)"
  shows "progressed s (fire cfg t x)"
proof (cases "cb t")
  case c: (DwellComplete b e)
  have "\<not> noDwell x" using t by (rule not_noDwell) (simp add: c)
  with id have "hoveredElement x \<noteq> None" by (auto simp add: inv_dwell_def)
  with pr have "hoveredElement s \<noteq> None" by (auto simp add: progressed_def)
  then show ?thesis by (simp add: progressed_def fire_DwellComplete [OF c])
next
  case c: ProgressTick
  have "\<not> noDwell x" using t by (rule not_noDwell) (simp add: c)
  with id have h: "hoveredElement x \<noteq> None" "dwellProgress x \<le> 100"
    "dwellProgress x \<le> elapsedShare cfg (now x) (dwellStartTimeRef x)"
    by (auto simp add: inv_dwell_def)
  from h(1) pr have "hoveredElement x = hoveredElement s" "dwellProgress s \<le> dwellProgress x"
    by (auto simp add: progressed_def)
  moreover have "dwellProgress x \<le> dwellProgress (fire cfg t x)"
    using h(2,3) by (simp add: fire_ProgressTick_share [OF c])
  moreover have "hoveredElement (fire cfg t x) = hoveredElement x"
    by (simp add: fire_ProgressTick [OF c])
  ultimately show ?thesis by (simp add: progressed_def)
next
  case c: MouseInactive
  with pr show ?thesis by (simp add: progressed_def fire_MouseInactive)
next
  case c: InitDone
  with pr show ?thesis by (simp add: progressed_def fire_InitDone)
qed

lemma progressed_tick:
  assumes "inv_timers s" and "inv_dwell cfg s"
  shows "progressed s (tick cfg s)"
proof -
  let ?s1 = "s\<lparr>now := now s + 1\<rparr>"
  have "inv_timers (runDue cfg (timers ?s1) ?s1) \<and> inv_dwell cfg (runDue cfg (timers ?s1) ?s1)
      \<and> progressed s (runDue cfg (timers ?s1) ?s1)"
  proof (rule runDue_rule)
    show "inv_timers ?s1 \<and> inv_dwell cfg ?s1 \<and> progressed s ?s1"
      using assms by (simp add: inv_dwell_advance progressed_def)
  next
    fix t and x :: state
    assume "inv_timers x \<and> inv_dwell cfg x \<and> progressed s x" and "t \<in> set (timers x)"
    then show "inv_timers (fire cfg t x) \<and> inv_dwell cfg (fire cfg t x)
        \<and> progressed s (fire cfg t x)"
      by (simp add: inv_timers_fire inv_dwell_fire progressed_fire)
  qed
  then show ?thesis by (simp add: tick_def Let_def)
qed

lemma progressed_handle:
  assumes it: "inv_timers s" and id: "inv_dwell cfg s"
  shows "(hoveredElement (handle cfg e s) = hoveredElement s
            \<longrightarrow> dwellProgress s \<le> dwellProgress (handle cfg e s))
         \<and> (hoveredElement (handle cfg e s) \<noteq> hoveredElement s
            \<longrightarrow> dwellProgress (handle cfg e s) = 0)"
proof (cases e)
  case (SetEnabled b)
  show ?thesis
  proof (cases "b = enabled s")
    case True
    with SetEnabled show ?thesis by (simp add: setEnabled_def)
  next
    case False
    then show ?thesis using SetEnabled id
      by (cases b) (auto simp add: setEnabled_def Let_def inv_dwell_def)
  qed
next
  case (MouseMove p)
  then show ?thesis by (simp add: handleMouseMove_eq)
next
  case (Gaze data)
  have h: "hoveredElement s = currentHoveredRef s" using id by (simp add: inv_dwell_def)
  have "(hoveredElement (dwellTransition cfg b x) = hoveredElement x
            \<longrightarrow> dwellProgress x \<le> dwellProgress (dwellTransition cfg b x))
         \<and> (hoveredElement (dwellTransition cfg b x) \<noteq> hoveredElement x
            \<longrightarrow> dwellProgress (dwellTransition cfg b x) = 0)"
    if "hoveredElement x = currentHoveredRef x" for b x
    using that
    by (auto simp add: dwellTransition_def startDwell_eq stopDwell_eq split: option.splits)
  from this [of s] this [of "s\<lparr>gazePosition := _\<rparr>"] h Gaze show ?thesis
    by (simp add: gazeListener_def Let_def split: option.splits)
next
  case ScriptLoaded
  then show ?thesis by (simp add: scriptOnload_def)
next
  case BeginResolved
  then show ?thesis by (simp add: beginThen_def setTimer_def)
next
  case Tick
  from progressed_tick [OF it id] Tick show ?thesis
    by (auto simp add: progressed_def)
qed simp_all

text \<open>
  Claim C2, for a positive dwell time. In every reachable state the progress lies between
  0 and 100; a step that leaves the hovered target as it was does not lower the progress,
  and a step that changes the hovered target (to another id, to null or from null)
  leaves the progress at 0.
\<close>

theorem progress_bounded_monotone_reset:
  assumes "0 < dwellTime cfg" and "s = run cfg es (mount cfg d b)"
  shows "0 \<le> dwellProgress s \<and> dwellProgress s \<le> 100
         \<and> (hoveredElement (step cfg e s) = hoveredElement s
              \<longrightarrow> dwellProgress s \<le> dwellProgress (step cfg e s))
         \<and> (hoveredElement (step cfg e s) \<noteq> hoveredElement s
              \<longrightarrow> dwellProgress (step cfg e s) = 0)"
proof -
  have it: "inv_timers s" and id: "inv_dwell cfg s"
    using assms(2) inv_reachable(1) inv_dwell_reachable by simp_all
  from id have "0 \<le> dwellProgress s \<and> dwellProgress s \<le> 100"
    by (simp add: inv_dwell_def)
  with progressed_handle [OF it id, of e] show ?thesis
    by (simp add: step_def)
qed

theorem progress_bounded_monotone_reset_witness:
  "0 < dwellTime ex_cfg \<and> hoveredElement ex_mid_dwell = Some ''apple''
   \<and> dwellProgress ex_mid_dwell = 50
   \<and> hoveredElement (step ex_cfg (SetEnabled False) ex_mid_dwell) = None
   \<and> dwellProgress (step ex_cfg (SetEnabled False) ex_mid_dwell) = 0"
proof -
  have k: "0 < dwellTime ex_cfg" by (simp add: ex_cfg_def)
  have r: "ex_mid_dwell
      = run ex_cfg (ex_started @ [Gaze (Some (10, 10))] @ replicate 60 Tick)
          (mount ex_cfg ex_dom False)"
    by (simp only: ex_mid_dwell_def)
  from ex_mid_dwell_snapshot
  have en: "enabled ex_mid_dwell" and hv: "hoveredElement ex_mid_dwell = Some ''apple''"
    and pr: "dwellProgress ex_mid_dwell = 50"
    by (simp_all add: snapshot_def)
  have hn: "hoveredElement (step ex_cfg (SetEnabled False) ex_mid_dwell) = None"
    using en by (simp add: step_def setEnabled_def Let_def)
  with hv have "hoveredElement (step ex_cfg (SetEnabled False) ex_mid_dwell)
      \<noteq> hoveredElement ex_mid_dwell" by simp
  with progress_bounded_monotone_reset [OF k r, of "SetEnabled False"]
  have "dwellProgress (step ex_cfg (SetEnabled False) ex_mid_dwell) = 0" by blast
  with k hv pr hn show ?thesis by (intro conjI)
qed

end
